theory Spec2Isabelle
  imports Main "HOL-Library.Word" "HOL-Library.Monad_Syntax"
begin

unbundle bit_operations_syntax

section \<open>Data model of the FAT driver (src/src/fat.c)\<close>

text \<open>
  The C integer types are fixed-width words: \<open>uint8_t\<close>, \<open>uint16_t\<close>, \<open>uint32_t\<close> and a
  64-bit \<open>size_t\<close>. A result of type \<open>option\<close> is \<open>None\<close> where the C program leaves
  defined behaviour (an access outside a buffer, a division by zero, a null pointer that is
  dereferenced) or where a loop does not come to an end.
\<close>

type_synonym u8 = "8 word"
type_synonym u16 = "16 word"
type_synonym u32 = "32 word"
type_synonym u64 = "64 word"

text \<open>
  \<open>fat_inode_t\<close>: the in-memory record behind a handle. The list link \<open>next\<close> of the C
  struct is the list structure of \<open>inodes\<close> below. The field \<open>size\<close> is called
  \<open>size_bytes\<close> here.
\<close>

record fat_inode =
  parent :: u32
  type :: u8
  cluster :: u32
  size_bytes :: u32
  atime :: u64
  ctime :: u64
  mtime :: u64

text \<open>
  The volume: \<open>struct fs_st\<close> with its \<open>fat_data_t\<close>. The header fat.h is not part of
  the sources, so the values of its geometry macros \<open>fat_num_clusters(fs)\<close>,
  \<open>fat_clustersize(fs)\<close>, \<open>fat_first_data_sector(fs)\<close> and \<open>fat_root_sectors(fs)\<close> and the
  fields of the boot parameter block that fat.c reads are fields of the record. The
  partition behind the volume is the sector store \<open>part\<close>.
\<close>

record fat_fs =
  fat_num_clusters :: u32
  fat_clustersize :: u32
  fat_first_data_sector :: u32
  fat_root_sectors :: u32
  sectors_per_cluster :: u8
  root_count :: u16
  fat :: "u8 list"
  inodes :: "fat_inode list"
  next_ino :: u32
  part :: "nat \<Rightarrow> u8 list"

definition FAT_END :: u32 where
  "FAT_END = 0xFF8"

definition FAT_DIR_DIRECTORY :: u8 where
  "FAT_DIR_DIRECTORY = 0x10"

definition FAT_DIR_LONGNAME :: u8 where
  "FAT_DIR_LONGNAME = 0x0F"

section \<open>The FAT table\<close>

definition fat_bits :: "fat_fs \<Rightarrow> nat" where
  "fat_bits fs =
     (if fat_num_clusters fs < 4085 then 12
      else if fat_num_clusters fs < 65525 then 16
      else 32)"

text \<open>
  \<open>*(uint16_t *)&fat[offset]\<close> on a little-endian host: the byte at \<open>offset\<close> is the low
  byte. Both bytes have to lie inside the buffer.
\<close>

definition load16 :: "u8 list \<Rightarrow> nat \<Rightarrow> u16 option" where
  "load16 m a =
     (if a + 1 < length m
      then Some (ucast (m ! a) OR push_bit 8 (ucast (m ! (a + 1))))
      else None)"

definition store16 :: "u8 list \<Rightarrow> nat \<Rightarrow> u16 \<Rightarrow> u8 list option" where
  "store16 m a v =
     (if a + 1 < length m
      then Some (m[a := ucast v, a + 1 := ucast (drop_bit 8 v)])
      else None)"

definition fat_read_fat :: "fat_fs \<Rightarrow> u32 \<Rightarrow> u32 option" where
  "fat_read_fat fs c =
     (if fat_bits fs \<noteq> 12 then Some 0
      else
        let offset = c + c div 2 in
        case load16 (fat fs) (unat offset) of
          None \<Rightarrow> None
        | Some v \<Rightarrow>
            Some (ucast (if c AND 1 \<noteq> 0 then drop_bit 4 v else v AND 0x0FFF)))"

definition fat_write_fat :: "fat_fs \<Rightarrow> u32 \<Rightarrow> u32 \<Rightarrow> fat_fs option" where
  "fat_write_fat fs c s =
     (if fat_bits fs \<noteq> 12 then Some fs
      else
        let offset = c + c div 2 in
        case load16 (fat fs) (unat offset) of
          None \<Rightarrow> None
        | Some v \<Rightarrow>
            let v' = (if c AND 1 \<noteq> 0
                      then (ucast v AND 0x000F) OR push_bit 4 s
                      else (ucast v AND 0xF000) OR (s AND 0x0FFF)) in
            case store16 (fat fs) (unat offset) (ucast v') of
              None \<Rightarrow> None
            | Some m \<Rightarrow> Some (fs\<lparr>fat := m\<rparr>))"

lemma unat_inc_less:
  fixes i m :: "'a::len word"
  assumes "i < m"
  shows "unat (i + 1) = Suc (unat i)"
  using assms by unat_arith

function find_free_from :: "fat_fs \<Rightarrow> u32 \<Rightarrow> u32 option" where
  "find_free_from fs i =
     (if i < fat_num_clusters fs
      then (case fat_read_fat fs i of
              None \<Rightarrow> None
            | Some v \<Rightarrow> if v \<noteq> 0 then find_free_from fs (i + 1) else Some i)
      else Some 0)"
  by pat_completeness auto
termination
proof (relation "measure (\<lambda>(fs, i). unat (fat_num_clusters fs) - unat i)")
  show "wf (measure (\<lambda>(fs, i). unat (fat_num_clusters fs) - unat i))"
    by simp
next
  fix fs :: fat_fs and i x2 :: u32
  assume lt: "i < fat_num_clusters fs"
  then have "unat i < unat (fat_num_clusters fs)"
    by (simp add: word_less_nat_alt)
  moreover from lt have "unat (i + 1) = Suc (unat i)"
    by (rule unat_inc_less)
  ultimately show "((fs, i + 1), (fs, i)) \<in> measure (\<lambda>(fs, i). unat (fat_num_clusters fs) - unat i)"
    by simp
qed

declare find_free_from.simps [simp del]

definition fat_find_free :: "fat_fs \<Rightarrow> u32 option" where
  "fat_find_free fs = find_free_from fs 3"

text \<open>
  The byte offset of FAT12 entry \<open>c\<close> without the 32-bit wrap-around of
  \<open>cluster + cluster/2\<close>. Entry \<open>c\<close> lies inside the FAT buffer when
  \<open>fat_offset c + 1 < length (fat fs)\<close>; \<open>fat_covers\<close> says so for every entry below
  \<open>fat_num_clusters\<close>.
\<close>

definition fat_offset :: "u32 \<Rightarrow> nat" where
  "fat_offset c = unat c + unat c div 2"

definition fat_covers :: "fat_fs \<Rightarrow> bool" where
  "fat_covers fs =
     (fat_offset (fat_num_clusters fs) < length (fat fs) \<and> length (fat fs) \<le> 2 ^ 32)"

section \<open>The handle table\<close>

text \<open>
  \<open>fat_get_inode\<close> walks the linked list \<open>ino - 1\<close> links from its head. The outer
  \<open>None\<close> is the read of \<open>ret->next\<close> through a null pointer, which happens when the list
  is empty and \<open>ino - 1\<close> is not 0; \<open>Some None\<close> is the null pointer the function returns:
  for handle 0, for handle 1 on an empty list (the null head), and when the list ends
  before \<open>ino - 1\<close> links.
\<close>

fun inode_walk :: "fat_inode list \<Rightarrow> nat \<Rightarrow> fat_inode option option" where
  "inode_walk [] 0 = Some None"
| "inode_walk [] (Suc n) = None"
| "inode_walk (x # xs) 0 = Some (Some x)"
| "inode_walk (x # xs) (Suc n) = (if xs = [] then Some None else inode_walk xs n)"

definition fat_get_inode :: "fat_fs \<Rightarrow> u32 \<Rightarrow> fat_inode option option" where
  "fat_get_inode fs ino =
     (if ino = 0 then Some None else inode_walk (inodes fs) (unat (ino - 1)))"

section \<open>Cluster chains\<close>

text \<open>
  The loop of \<open>fat_clustercount\<close>: follow the FAT while the cluster is below \<open>FAT_END\<close>.
  On a cyclic chain the loop does not end; the result is then \<open>None\<close>.
\<close>

partial_function (option) chain_count :: "fat_fs \<Rightarrow> u32 \<Rightarrow> u32 \<Rightarrow> u32 option" where
  "chain_count fs c ret =
     (if c < FAT_END
      then (case fat_read_fat fs c of
              None \<Rightarrow> None
            | Some c' \<Rightarrow> chain_count fs c' (ret + 1))
      else Some ret)"

definition fat_clustercount :: "fat_fs \<Rightarrow> u32 \<Rightarrow> u32 option" where
  "fat_clustercount fs ino =
     (if ino = 0 then Some 0
      else if ino = 1
      then (if fat_clustersize fs = 0 then None
            else Some (ucast (root_count fs) * 32 div fat_clustersize fs))
      else (case fat_get_inode fs ino of
              Some (Some inode) \<Rightarrow> chain_count fs (cluster inode) 0
            | _ \<Rightarrow> None))"

text \<open>
  The second loop of \<open>fat_get_clusters\<close>: \<open>n\<close> steps along the chain, recording the
  cluster before each step.
\<close>

fun chain_clusters :: "fat_fs \<Rightarrow> u32 \<Rightarrow> nat \<Rightarrow> u32 list option" where
  "chain_clusters fs c 0 = Some []"
| "chain_clusters fs c (Suc n) =
     (case fat_read_fat fs c of
        None \<Rightarrow> None
      | Some c' \<Rightarrow> map_option ((#) c) (chain_clusters fs c' n))"

text \<open>
  \<open>fat_get_clusters\<close> returns an array of \<open>c_count + 1\<close> entries from \<open>calloc\<close>: the
  clusters of the chain followed by a zero.
\<close>

definition fat_get_clusters :: "fat_fs \<Rightarrow> u32 \<Rightarrow> u32 list option" where
  "fat_get_clusters fs ino =
     (if ino = 0 then None
      else
        case fat_clustercount fs ino of
          None \<Rightarrow> None
        | Some c_count \<Rightarrow>
            if c_count + 1 = 0 then None
            else if ino = 1
            then Some (map of_nat [0 ..< unat c_count] @ [0])
            else (case fat_get_inode fs ino of
                    Some (Some inode) \<Rightarrow>
                      map_option (\<lambda>cl. cl @ [0])
                        (chain_clusters fs (cluster inode) (unat c_count))
                  | _ \<Rightarrow> None))"

section \<open>Creating a file: \<open>fat_touch\<close>\<close>

text \<open>\<open>fstat_t\<close>, as fat.c uses it.\<close>

record fstat =
  st_size :: u32
  st_mode :: u32
  st_atime :: u64
  st_ctime :: u64
  st_mtime :: u64

text \<open>
  The allocation loop of \<open>fat_touch\<close>. The variable \<open>size\<close> (here \<open>sz\<close>) is an
  \<open>int32_t\<close>: the loop test is a signed comparison with 0. The macro
  \<open>fat_clustersize(fs)\<close> is taken as a \<open>uint32_t\<close>, so \<open>fat_clustersize(fs) > size\<close>
  compares unsigned; inside the loop \<open>size\<close> is positive, and the two readings of the
  comparison agree for every cluster size below \<open>2^31\<close>. With a cluster size of 0 the
  loop, once entered, does not end.
\<close>

partial_function (option) touch_loop :: "fat_fs \<Rightarrow> u32 \<Rightarrow> u32 \<Rightarrow> (fat_fs \<times> u32) option" where
  "touch_loop fs current sz =
     (if 0 <s sz
      then (case fat_find_free fs of
              None \<Rightarrow> None
            | Some free \<Rightarrow>
                (case fat_write_fat fs current free of
                   None \<Rightarrow> None
                 | Some fs1 \<Rightarrow>
                     (case fat_read_fat fs1 current of
                        None \<Rightarrow> None
                      | Some current' \<Rightarrow>
                          (case fat_write_fat fs1 current' FAT_END of
                             None \<Rightarrow> None
                           | Some fs2 \<Rightarrow>
                               touch_loop fs2 current'
                                 (if fat_clustersize fs2 > sz then 0
                                  else sz - fat_clustersize fs2)))))
      else Some (fs, current))"

text \<open>
  \<open>fat_touch\<close> returns the new handle and the volume. The macro \<open>S_DIR\<close> of the missing
  header dito.h is the parameter \<open>s_dir\<close>. The new record is appended through
  \<open>fat_data(fs)->last\<close>, a null pointer when the handle table is empty.
\<close>

definition fat_touch :: "u32 \<Rightarrow> fat_fs \<Rightarrow> fstat \<Rightarrow> (u32 \<times> fat_fs) option" where
  "fat_touch s_dir fs st =
     (let ret = next_ino fs;
          fs0 = fs\<lparr>next_ino := next_ino fs + 1\<rparr>;
          ino = \<lparr>parent = - 1,
                 type = (if st_mode st AND s_dir = s_dir then FAT_DIR_DIRECTORY else 0),
                 cluster = 0, size_bytes = st_size st,
                 atime = st_atime st, ctime = st_ctime st, mtime = st_mtime st\<rparr>;
          sz = size_bytes ino - fat_clustersize fs0
      in case fat_find_free fs0 of
           None \<Rightarrow> None
         | Some current \<Rightarrow>
             (case fat_write_fat fs0 current FAT_END of
                None \<Rightarrow> None
              | Some fs1 \<Rightarrow>
                  (case touch_loop fs1 current sz of
                     None \<Rightarrow> None
                   | Some (fs2, cur) \<Rightarrow>
                       if inodes fs2 = [] then None
                       else Some (ret, fs2\<lparr>inodes := inodes fs2 @ [ino\<lparr>cluster := current\<rparr>]\<rparr>))))"

section \<open>Directory entries\<close>

text \<open>
  Modelled from the spec: the layout of \<open>fat_dir_t\<close> and \<open>fat_longname_t\<close>, whose
  declarations are in the missing header fat.h. A directory slot is 32 bytes; the two
  structs are two views of a slot. Short entry: name (11 bytes) at offset 0, attribute at
  11, entry type at 12, csec at 13, ctime at 14, cdate at 16, adate at 18, cluster_high at
  20, mtime at 22, mdate at 24, cluster_low at 26, size at 28. Long-name entry: sequence
  number at 0, name1 (10 bytes) at 1, attribute at 11, entry type at 12, checksum at 13,
  name2 (12 bytes) at 14, cluster at 26, name3 (4 bytes) at 28.
\<close>

type_synonym slot = "u8 list"

definition get16 :: "u8 list \<Rightarrow> nat \<Rightarrow> u16" where
  "get16 e a = ucast (e ! a) OR push_bit 8 (ucast (e ! (a + 1)))"

definition put16 :: "u8 list \<Rightarrow> nat \<Rightarrow> u16 \<Rightarrow> u8 list" where
  "put16 e a v = e[a := ucast v, a + 1 := ucast (drop_bit 8 v)]"

definition get32 :: "u8 list \<Rightarrow> nat \<Rightarrow> u32" where
  "get32 e a = ucast (get16 e a) OR push_bit 16 (ucast (get16 e (a + 2)))"

definition put32 :: "u8 list \<Rightarrow> nat \<Rightarrow> u32 \<Rightarrow> u8 list" where
  "put32 e a v = put16 (put16 e a (ucast v)) (a + 2) (ucast (drop_bit 16 v))"

definition de_name :: "slot \<Rightarrow> u8 list" where "de_name e = take 11 e"
definition de_attrib :: "slot \<Rightarrow> u8" where "de_attrib e = e ! 11"
definition de_csec :: "slot \<Rightarrow> u8" where "de_csec e = e ! 13"
definition de_ctime :: "slot \<Rightarrow> u16" where "de_ctime e = get16 e 14"
definition de_cdate :: "slot \<Rightarrow> u16" where "de_cdate e = get16 e 16"
definition de_adate :: "slot \<Rightarrow> u16" where "de_adate e = get16 e 18"
definition de_cluster_high :: "slot \<Rightarrow> u16" where "de_cluster_high e = get16 e 20"
definition de_mtime :: "slot \<Rightarrow> u16" where "de_mtime e = get16 e 22"
definition de_mdate :: "slot \<Rightarrow> u16" where "de_mdate e = get16 e 24"
definition de_cluster_low :: "slot \<Rightarrow> u16" where "de_cluster_low e = get16 e 26"
definition de_size :: "slot \<Rightarrow> u32" where "de_size e = get32 e 28"

definition ln_num :: "slot \<Rightarrow> u8" where "ln_num e = e ! 0"
definition ln_name1 :: "slot \<Rightarrow> u8 list" where "ln_name1 e = take 10 (drop 1 e)"
definition ln_attrib :: "slot \<Rightarrow> u8" where "ln_attrib e = e ! 11"
definition ln_entry_type :: "slot \<Rightarrow> u8" where "ln_entry_type e = e ! 12"
definition ln_checksum :: "slot \<Rightarrow> u8" where "ln_checksum e = e ! 13"
definition ln_name2 :: "slot \<Rightarrow> u8 list" where "ln_name2 e = take 12 (drop 14 e)"
definition ln_name3 :: "slot \<Rightarrow> u8 list" where "ln_name3 e = take 4 (drop 28 e)"

section \<open>Short names and the checksum\<close>

text \<open>
  A C string is the list of its bytes before the terminating zero.
  \<open>fat_checksum\<close> adds the 11 bytes of the short name, rotating the 8-bit sum right by one
  before each addition.
\<close>

definition fat_checksum :: "u8 list \<Rightarrow> u8" where
  "fat_checksum shortname =
     foldl (\<lambda>sum c. push_bit 7 (sum AND 1) + drop_bit 1 sum + c) 0 (take 11 shortname)"

definition pad_spaces :: "nat \<Rightarrow> u8 list \<Rightarrow> u8 list" where
  "pad_spaces n xs = xs @ replicate (n - length xs) 0x20"

text \<open>\<open>strrchr(s, '.')\<close> followed by \<open>&dot[1]\<close>: the bytes after the last dot, if there is a dot.\<close>

definition after_last_dot :: "u8 list \<Rightarrow> u8 list option" where
  "after_last_dot s =
     (if 0x2E \<in> set s then Some (rev (takeWhile (\<lambda>c. c \<noteq> 0x2E) (rev s))) else None)"

text \<open>
  \<open>fat_make_shortname\<close>: the first 8 bytes of the name cut at their first dot and padded
  with spaces, then up to 3 bytes after the last dot of the name, padded with spaces. (When
  the extension has 3 bytes the last \<open>strlen\<close> of the C code runs past the 11 bytes of the
  buffer; the padding loop after it then writes nothing.)
\<close>

definition fat_make_shortname :: "u8 list \<Rightarrow> u8 list" where
  "fat_make_shortname longname =
     pad_spaces 8 (takeWhile (\<lambda>c. c \<noteq> 0x2E) (take 8 longname)) @
     pad_spaces 3 (case after_last_dot longname of None \<Rightarrow> [] | Some ext \<Rightarrow> take 3 ext)"

section \<open>Long names\<close>

text \<open>
  The UTF-16 scratch buffer of \<open>fat_write_longname\<close>: \<open>entries * 26\<close> zero bytes, the
  bytes of the name at the even positions, and \<open>0xFF\<close> from position \<open>2 * strlen(name) + 2\<close>
  to the end.
\<close>

definition utf16_buffer :: "u8 list \<Rightarrow> nat \<Rightarrow> u8 list" where
  "utf16_buffer name entries =
     (let buffer = replicate (entries * 26) 0;
          buffer = fold (\<lambda>i b. b[2 * i := name ! i]) [0 ..< length name] buffer
      in fold (\<lambda>j b. b[j := 0xFF]) [2 * length name + 2 ..< entries * 26] buffer)"

text \<open>The field assignments to one \<open>fat_longname_t\<close>; its cluster field keeps its bytes.\<close>

definition ln_write :: "slot \<Rightarrow> u8 \<Rightarrow> u8 list \<Rightarrow> u8 list \<Rightarrow> u8 list \<Rightarrow> u8 \<Rightarrow> slot" where
  "ln_write e num n1 n2 n3 ck =
     [num] @ n1 @ [FAT_DIR_LONGNAME, 0, ck] @ n2 @ take 2 (drop 26 e) @ n3"

definition longname_entries :: "u8 list \<Rightarrow> nat" where
  "longname_entries name =
     (length name div 13 + (if length name mod 13 \<noteq> 0 then 1 else 0))"

text \<open>
  The body of the loop of \<open>fat_write_longname\<close>: step \<open>t\<close> (counted from 0) writes
  one slot with the sequence number \<open>t + 1\<close>, stored in a byte, and the 26 bytes of the
  scratch buffer from \<open>k = 26 * t\<close>.
\<close>

definition longname_slot :: "slot \<Rightarrow> nat \<Rightarrow> u8 list \<Rightarrow> u8 \<Rightarrow> slot" where
  "longname_slot e t buffer ck =
     ln_write e (of_nat (t + 1))
       (take 10 (drop (26 * t) buffer))
       (take 12 (drop (26 * t + 10) buffer))
       (take 4 (drop (26 * t + 22) buffer)) ck"

text \<open>\<open>ln[0].num |= 0x40\<close>\<close>

definition set_last_flag :: "slot \<Rightarrow> slot" where
  "set_last_flag e = e[0 := e ! 0 OR 0x40]"

text \<open>
  \<open>fat_write_longname\<close> works on the slots that start at \<open>de\<close>. Step \<open>t\<close> of its loop
  writes slot \<open>entries - 1 - t\<close>. Then bit \<open>0x40\<close> is set in the sequence byte of slot 0.
  The result is the slots and the index of the slot after the block; it is \<open>None\<close> when
  the slots at \<open>de\<close> are fewer than the code writes.
\<close>

definition fat_write_longname :: "slot list \<Rightarrow> u8 list \<Rightarrow> (slot list \<times> nat) option" where
  "fat_write_longname ln name =
     (let shortname = fat_make_shortname name;
          entries = longname_entries name;
          buffer = utf16_buffer name entries
      in if length ln < entries \<or> ln = [] then None
         else
           let ln1 = fold (\<lambda>t l. l[entries - 1 - t :=
                        longname_slot (l ! (entries - 1 - t)) t buffer (fat_checksum shortname)])
                      [0 ..< entries] ln;
               ln2 = ln1[0 := set_last_flag (ln1 ! 0)]
           in Some (ln2, entries))"

text \<open>
  The 13 bytes \<open>fat_read_longname\<close> takes from one entry: the low byte of each UTF-16 unit
  of name1, name2 and name3.
\<close>

definition ln_chars :: "slot \<Rightarrow> u8 list" where
  "ln_chars e = map (\<lambda>i. e ! i) [1, 3, 5, 7, 9, 14, 16, 18, 20, 22, 24, 28, 30]"

text \<open>
  \<open>fat_read_longname\<close> on the slots that start at \<open>de\<close>. The outer \<open>None\<close> is a read
  outside the slots; \<open>Some None\<close> is the null pointer the function returns when the first
  slot is not the head of a long name; otherwise the result is the C string in the
  buffer of \<open>entries * 13 + 1\<close> bytes: the bytes before the first zero.
\<close>

definition fat_read_longname :: "slot list \<Rightarrow> u8 list option option" where
  "fat_read_longname ln =
     (if ln = [] then None
      else if ln_attrib (ln ! 0) \<noteq> FAT_DIR_LONGNAME then Some None
      else if ln_num (ln ! 0) AND 0x40 = 0 then Some None
      else
        let entries = unat (ln_num (ln ! 0) AND 0x1F) in
        if length ln < entries then None
        else Some (Some (takeWhile (\<lambda>c. c \<noteq> 0)
               (concat (map (\<lambda>j. ln_chars (ln ! j)) (rev [0 ..< entries]))))))"

section \<open>Cluster I/O\<close>

text \<open>
  Modelled from the spec: \<open>partition_readblocks\<close> and \<open>partition_writeblocks\<close> of the
  partition layer, which is not part of the sources. The partition is a store of sectors
  of 512 bytes; a read gives \<open>n\<close> sectors from sector \<open>start\<close>, a write replaces them
  with the bytes of the buffer.
\<close>

definition sector :: "(nat \<Rightarrow> u8 list) \<Rightarrow> nat \<Rightarrow> u8 list" where
  "sector p s = take 512 (p s @ replicate 512 0)"

definition partition_readblocks :: "(nat \<Rightarrow> u8 list) \<Rightarrow> nat \<Rightarrow> nat \<Rightarrow> u8 list" where
  "partition_readblocks p start n = concat (map (sector p) [start ..< start + n])"

definition partition_writeblocks ::
    "(nat \<Rightarrow> u8 list) \<Rightarrow> u8 list \<Rightarrow> nat \<Rightarrow> nat \<Rightarrow> (nat \<Rightarrow> u8 list)" where
  "partition_writeblocks p buffer start n =
     (\<lambda>s. if start \<le> s \<and> s < start + n
          then take 512 (drop ((s - start) * 512) buffer)
          else p s)"

text \<open>
  The first sector of a cluster, as \<open>fat_readclusters\<close> and \<open>fat_writeclusters\<close> compute it
  in \<open>size_t\<close>: cluster 0 is the root directory area.
\<close>

definition cluster_sector :: "fat_fs \<Rightarrow> u64 \<Rightarrow> u64" where
  "cluster_sector fs c =
     (if c \<ge> 2
      then ucast (fat_first_data_sector fs) + ucast (fat_root_sectors fs)
             + (c - 2) * ucast (sectors_per_cluster fs)
      else ucast (fat_first_data_sector fs))"

text \<open>\<open>fat_readclusters\<close> with a non-null buffer: the bytes it stores into the buffer.\<close>

definition fat_readclusters :: "fat_fs \<Rightarrow> u64 \<Rightarrow> u64 \<Rightarrow> u8 list" where
  "fat_readclusters fs c len =
     (if len = 0 then []
      else partition_readblocks (part fs) (unat (cluster_sector fs c))
             (unat (len * ucast (sectors_per_cluster fs))))"

text \<open>
  \<open>fat_writeclusters\<close>: \<open>buffer\<close> holds the bytes from the pointer it is given to the end of
  the object the pointer points into; the result is \<open>None\<close> when the write would read
  past that end.
\<close>

definition fat_writeclusters :: "fat_fs \<Rightarrow> u8 list \<Rightarrow> u64 \<Rightarrow> u64 \<Rightarrow> fat_fs option" where
  "fat_writeclusters fs buffer c len =
     (if len = 0 then Some fs
      else
        let n = unat (len * ucast (sectors_per_cluster fs)) in
        if length buffer < n * 512 then None
        else Some (fs\<lparr>part := partition_writeblocks (part fs) buffer
                                 (unat (cluster_sector fs c)) n\<rparr>))"

text \<open>\<open>memcpy\<close> of \<open>src\<close> to offset \<open>off\<close> of \<open>dst\<close>; \<open>None\<close> when it runs past the end.\<close>

definition blit :: "u8 list \<Rightarrow> nat \<Rightarrow> u8 list \<Rightarrow> u8 list option" where
  "blit dst off src =
     (if off + length src \<le> length dst
      then Some (take off dst @ src @ drop (off + length src) dst)
      else None)"

section \<open>Reading and writing a file\<close>

text \<open>
  The size \<open>fat_read\<close> and \<open>fat_write\<close> work with: the size of the inode, or for a stored
  size of 0 the number of clusters of the chain times the cluster size (in 32 bits).
\<close>

definition file_size :: "fat_fs \<Rightarrow> u32 \<Rightarrow> fat_inode \<Rightarrow> u32 option" where
  "file_size fs ino inode =
     (if size_bytes inode \<noteq> 0 then Some (size_bytes inode)
      else map_option (\<lambda>n. n * fat_clustersize fs) (fat_clustercount fs ino))"

text \<open>\<open>if(offset + length > size) length = size - offset;\<close> in \<open>size_t\<close>.\<close>

definition clamp_length :: "u32 \<Rightarrow> u64 \<Rightarrow> u64 \<Rightarrow> u64" where
  "clamp_length sz len offset =
     (if offset + len > ucast sz then ucast sz - offset else len)"

text \<open>The number of clusters to stage, a \<open>uint32_t\<close>.\<close>

definition span_clusters :: "fat_fs \<Rightarrow> u64 \<Rightarrow> u32 \<Rightarrow> u32" where
  "span_clusters fs len cluster_offset =
     (let total = len + ucast cluster_offset;
          n = (ucast (total div ucast (fat_clustersize fs)) :: u32)
      in if total mod ucast (fat_clustersize fs) \<noteq> 0 then n + 1 else n)"

text \<open>
  The loop of \<open>fat_read\<close> over the cluster indices \<open>is\<close>: cluster \<open>clusters[i]\<close> is read to
  offset \<open>b\<close> of the staging buffer, and \<open>b\<close> advances by the cluster size. \<open>None\<close> is an
  index outside the array \<open>clusters\<close> or a write past the staging buffer.
\<close>

fun stage_read :: "fat_fs \<Rightarrow> u32 list \<Rightarrow> nat list \<Rightarrow> nat \<Rightarrow> u8 list \<Rightarrow> u8 list option" where
  "stage_read fs clusters [] b buff = Some buff"
| "stage_read fs clusters (i # is) b buff =
     (if i < length clusters
      then (case blit buff b (fat_readclusters fs (ucast (clusters ! i)) 1) of
              None \<Rightarrow> None
            | Some buff' \<Rightarrow> stage_read fs clusters is (b + unat (fat_clustersize fs)) buff')
      else None)"

text \<open>
  \<open>fat_read\<close> returns its \<open>int\<close> result (the 32 low bits of the length) and the bytes it
  copied to the caller's buffer.
\<close>

definition fat_read :: "fat_fs \<Rightarrow> u32 \<Rightarrow> u64 \<Rightarrow> u64 \<Rightarrow> (u32 \<times> u8 list) option" where
  "fat_read fs ino len offset =
     (if ino = 0 \<or> len = 0 then Some (0, [])
      else
        case fat_get_inode fs ino of
          None \<Rightarrow> None
        | Some None \<Rightarrow> None
        | Some (Some inode) \<Rightarrow>
        case fat_get_clusters fs ino of
          None \<Rightarrow> None
        | Some clusters \<Rightarrow>
        case file_size fs ino inode of
          None \<Rightarrow> None
        | Some sz \<Rightarrow>
            if fat_clustersize fs = 0 then None
            else
              let len' = clamp_length sz len offset;
                  start_cluster = (ucast (offset div ucast (fat_clustersize fs)) :: u32);
                  cluster_offset = (ucast (offset mod ucast (fat_clustersize fs)) :: u32);
                  num_clusters = span_clusters fs len' cluster_offset;
                  buff = replicate (unat (num_clusters * fat_clustersize fs)) 0
              in case stage_read fs clusters
                        [unat start_cluster ..< unat (start_cluster + num_clusters)] 0 buff of
                   None \<Rightarrow> None
                 | Some staged \<Rightarrow>
                     if unat cluster_offset + unat len' \<le> length staged
                     then Some (ucast len', take (unat len') (drop (unat cluster_offset) staged))
                     else None)"

text \<open>The loop of \<open>fat_write\<close>: cluster \<open>clusters[i]\<close> is written from offset \<open>b\<close> on.\<close>

fun stage_write :: "fat_fs \<Rightarrow> u32 list \<Rightarrow> nat list \<Rightarrow> nat \<Rightarrow> u8 list \<Rightarrow> fat_fs option" where
  "stage_write fs clusters [] b buff = Some fs"
| "stage_write fs clusters (i # is) b buff =
     (if i < length clusters
      then (case fat_writeclusters fs (drop b buff) (ucast (clusters ! i)) 1 of
              None \<Rightarrow> None
            | Some fs' \<Rightarrow> stage_write fs' clusters is (b + unat (fat_clustersize fs)) buff)
      else None)"

text \<open>
  \<open>fat_write\<close> returns its \<open>int\<close> result and the volume. \<open>buffer\<close> is the caller's buffer
  with all its bytes; \<open>None\<close> also when the code copies more bytes than it holds.
\<close>

definition fat_write :: "fat_fs \<Rightarrow> u32 \<Rightarrow> u8 list \<Rightarrow> u64 \<Rightarrow> u64 \<Rightarrow> (u32 \<times> fat_fs) option" where
  "fat_write fs ino buffer len offset =
     (if ino = 0 then Some (0, fs)
      else
        case fat_get_inode fs ino of
          None \<Rightarrow> None
        | Some None \<Rightarrow> None
        | Some (Some inode) \<Rightarrow>
        case fat_get_clusters fs ino of
          None \<Rightarrow> None
        | Some clusters \<Rightarrow>
        case file_size fs ino inode of
          None \<Rightarrow> None
        | Some sz \<Rightarrow>
            if fat_clustersize fs = 0 then None
            else
              let len' = clamp_length sz len offset;
                  start_cluster = (ucast (offset div ucast (fat_clustersize fs)) :: u32);
                  cluster_offset = (ucast (offset mod ucast (fat_clustersize fs)) :: u32);
                  num_clusters = span_clusters fs len' cluster_offset;
                  buff = replicate (unat (num_clusters * fat_clustersize fs)) 0
              in case fat_read fs ino (ucast (num_clusters * fat_clustersize fs))
                        (offset - ucast cluster_offset) of
                   None \<Rightarrow> None
                 | Some (r, old) \<Rightarrow>
                 case blit buff 0 old of
                   None \<Rightarrow> None
                 | Some buff1 \<Rightarrow>
                     if length buffer < unat len' then None
                     else
                       case blit buff1 (unat cluster_offset) (take (unat len') buffer) of
                         None \<Rightarrow> None
                       | Some buff2 \<Rightarrow>
                           map_option (Pair (ucast len'))
                             (stage_write fs clusters
                                [unat start_cluster ..< unat (start_cluster + num_clusters)]
                                0 buff2))"

section \<open>Directory operations\<close>

text \<open>
  \<open>dirent_t\<close> (its fields \<open>name\<close> and \<open>ino\<close> are \<open>d_name\<close> and \<open>d_ino\<close> here), and the fields of \<open>struct tm\<close> that fat.c uses. The C library functions
  \<open>mktime\<close> and \<open>gmtime\<close> are parameters of the functions that call them.
\<close>

record dirent =
  d_name :: "u8 list"
  d_ino :: u32

record tm =
  tm_sec :: u32
  tm_min :: u32
  tm_hour :: u32
  tm_mday :: u32
  tm_mon :: u32
  tm_year :: u32

definition slot_at :: "u8 list \<Rightarrow> nat \<Rightarrow> slot" where
  "slot_at buf k = take 32 (drop (32 * k) buf)"

subsection \<open>\<open>fat_readdir\<close>\<close>

text \<open>
  The first loop of \<open>fat_readdir\<close> over the directory buffer: \<open>k\<close> is the index of the
  slot \<open>de\<close> points to. \<open>Some None\<close> is the return of a null pointer at the end-of-directory
  mark, \<open>Some (Some k)\<close> the slot at which the loop stops, \<open>None\<close> a read past the buffer.
\<close>

function readdir_scan :: "u8 list \<Rightarrow> nat \<Rightarrow> u32 \<Rightarrow> nat option option" where
  "readdir_scan buf k num =
     (if num > 2 \<and> 32 * k < length buf
      then (if buf ! (32 * k) = 0 then Some None
            else if length buf \<le> 32 * k + 11 then None
            else if buf ! (32 * k + 11) = FAT_DIR_LONGNAME \<or> buf ! (32 * k) = 0xE5
            then readdir_scan buf (k + 1) num
            else readdir_scan buf (k + 1) (num - 1))
      else Some (Some k))"
  by pat_completeness auto
termination
  by (relation "measure (\<lambda>(buf, k, num). length buf - 32 * k)") auto

declare readdir_scan.simps [simp del]

text \<open>\<open>while(de->attrib == FAT_DIR_LONGNAME) de++;\<close>\<close>

function skip_longname :: "u8 list \<Rightarrow> nat \<Rightarrow> nat option" where
  "skip_longname buf k =
     (if length buf \<le> 32 * k + 11 then None
      else if buf ! (32 * k + 11) = FAT_DIR_LONGNAME then skip_longname buf (k + 1)
      else Some k)"
  by pat_completeness auto
termination
  by (relation "measure (\<lambda>(buf, k). length buf - 32 * k)") auto

declare skip_longname.simps [simp del]

text \<open>
  The 8.3 name of \<open>fat_readdir\<close>, built in a buffer of 8 bytes from \<open>calloc(8, 1)\<close>.
  \<open>mem\<close> is the directory buffer from \<open>de\<close> on. The result is the buffer from \<open>de\<close> on,
  in which the first space of the name has become a zero, and the name; \<open>None\<close> when a
  string function runs past the directory buffer or past the 8 bytes.
\<close>

definition parse_83 :: "u8 list \<Rightarrow> (u8 list \<times> u8 list) option" where
  "parse_83 mem =
     (let p = length (takeWhile (\<lambda>x. x \<noteq> 0 \<and> x \<noteq> 0x20) mem) in
      if length mem \<le> p \<or> length mem < 12 then None
      else
        let mem1 = (if mem ! p = 0x20 then mem[p := 0] else mem);
            c = min 8 (length (takeWhile (\<lambda>x. x \<noteq> 0) mem1));
            nb = take c mem1 @ replicate (8 - c) 0
        in if mem1 ! 11 \<noteq> FAT_DIR_DIRECTORY \<and> 8 \<le> c then None
           else
             let nb = (if mem1 ! 11 \<noteq> FAT_DIR_DIRECTORY then nb[c := 0x2E] else nb);
                 c = (if mem1 ! 11 \<noteq> FAT_DIR_DIRECTORY then c + 1 else c);
                 ext = take 3 (takeWhile (\<lambda>x. x \<noteq> 0) (take 3 (drop 8 mem1)));
                 ext = ext @ replicate (3 - length ext) 0
             in if 8 < c + 3 then None
                else
                  let nb = take c nb @ ext @ drop (c + 3) nb;
                      q = length (takeWhile (\<lambda>x. x \<noteq> 0 \<and> x \<noteq> 0x20) nb)
                  in if length nb \<le> q then None
                     else Some (mem1, takeWhile (\<lambda>x. x \<noteq> 0) (nb[q := 0])))"

text \<open>The three \<open>struct tm\<close> that \<open>fat_readdir\<close> builds from the dates and times of an entry.\<close>

definition tm_of :: "u16 \<Rightarrow> u16 \<Rightarrow> tm" where
  "tm_of tim dat =
     \<lparr>tm_sec = ucast (tim AND 0x1F), tm_min = ucast (drop_bit 5 tim AND 0x3F),
      tm_hour = ucast (drop_bit 11 tim AND 0x1F), tm_mday = ucast (dat AND 0x1F),
      tm_mon = ucast (drop_bit 5 dat AND 0xF), tm_year = ucast (drop_bit 9 dat AND 0x7F)\<rparr>"

text \<open>
  \<open>fat_readdir\<close>. The result is the \<open>dirent\<close> (\<open>None\<close> for a null pointer) and the volume,
  in which an entry found on disk has a new inode record.
\<close>

definition fat_readdir ::
    "(tm \<Rightarrow> u64) \<Rightarrow> fat_fs \<Rightarrow> u32 \<Rightarrow> u32 \<Rightarrow> (dirent option \<times> fat_fs) option" where
  "fat_readdir mktime fs dir num =
     (if dir = 0 then Some (None, fs)
      else
        case fat_get_inode fs dir of
          None \<Rightarrow> None
        | Some None \<Rightarrow> Some (None, fs)
        | Some (Some dir_ino) \<Rightarrow>
            if type dir_ino \<noteq> FAT_DIR_DIRECTORY then Some (None, fs)
            else if num = 0 then Some (Some \<lparr>d_name = [0x2E], d_ino = dir\<rparr>, fs)
            else if num = 1 then Some (Some \<lparr>d_name = [0x2E, 0x2E], d_ino = parent dir_ino\<rparr>, fs)
            else
              let num = (if dir \<noteq> 1 then num + 2 else num) in
              case fat_clustercount fs dir of
                None \<Rightarrow> None
              | Some cc \<Rightarrow>
              let sz = cc * fat_clustersize fs in
              case fat_read fs dir (ucast sz) 0 of
                None \<Rightarrow> None
              | Some (r, bytes) \<Rightarrow>
              case blit (replicate (unat sz) 0) 0 bytes of
                None \<Rightarrow> None
              | Some buffer \<Rightarrow>
              case readdir_scan buffer 0 num of
                None \<Rightarrow> None
              | Some None \<Rightarrow> Some (None, fs)
              | Some (Some k) \<Rightarrow>
                  if length buffer \<le> 32 * k then Some (None, fs)
                  else if buffer ! (32 * k) = 0 then Some (None, fs)
                  else
                    case fat_read_longname (map (slot_at buffer) [k ..< length buffer div 32]) of
                      None \<Rightarrow> None
                    | Some longname \<Rightarrow>
                    case skip_longname buffer k of
                      None \<Rightarrow> None
                    | Some k \<Rightarrow>
                        if length buffer < 32 * k + 32 then None
                        else
                          case (case longname of
                                  Some n \<Rightarrow> Some (drop (32 * k) buffer, n)
                                | None \<Rightarrow> parse_83 (drop (32 * k) buffer)) of
                            None \<Rightarrow> None
                          | Some (mem, nm) \<Rightarrow>
                              let de = take 32 mem;
                                  inode = \<lparr>parent = dir, type = de_attrib de,
                                    cluster = push_bit 16 (ucast (de_cluster_high de))
                                                + ucast (de_cluster_low de),
                                    size_bytes = de_size de,
                                    atime = mktime (tm_of 0 (de_adate de)),
                                    ctime = mktime (tm_of (de_ctime de) (de_cdate de)),
                                    mtime = mktime (tm_of (de_mtime de) (de_mdate de))\<rparr>
                              in if inodes fs = [] then None
                                 else Some (Some \<lparr>d_name = nm, d_ino = next_ino fs\<rparr>,
                                            fs\<lparr>inodes := inodes fs @ [inode],
                                               next_ino := next_ino fs + 1\<rparr>))"

subsection \<open>\<open>fat_link\<close>: the short entry\<close>

text \<open>The time and date words that \<open>fat_link\<close> packs from a \<open>struct tm\<close>.\<close>

definition fat_time :: "tm \<Rightarrow> u16" where
  "fat_time t =
     ucast (push_bit 11 (tm_hour t AND 0x1F) OR push_bit 5 (tm_min t AND 0x3F)
              OR (tm_sec t AND 0x1F))"

definition fat_date :: "tm \<Rightarrow> u16" where
  "fat_date t =
     ucast (push_bit 9 (tm_year t AND 0x7F) OR push_bit 5 (tm_mon t AND 0xF)
              OR (tm_mday t AND 0x1F))"

text \<open>
  The assignments of \<open>fat_link\<close> to the fields of the short entry \<open>de\<close> after its name is
  written: attribute, csec, times and dates, \<open>cluster_high\<close>, \<open>cluster_low\<close> and size.
\<close>

definition link_fill_entry :: "(u64 \<Rightarrow> tm) \<Rightarrow> fat_inode \<Rightarrow> slot \<Rightarrow> slot" where
  "link_fill_entry gmtime iino de =
     (let de = de[11 := type iino];
          de = de[13 := 0];
          de = put16 de 14 (fat_time (gmtime (ctime iino)));
          de = put16 de 16 (fat_date (gmtime (ctime iino)));
          de = put16 de 18 (fat_date (gmtime (atime iino)));
          de = put16 de 22 (fat_time (gmtime (mtime iino)));
          de = put16 de 24 (fat_date (gmtime (mtime iino)));
          de = put16 de 20 (ucast (drop_bit 16 (cluster iino)));
          de = put16 de 26 (ucast (cluster iino AND 0xFF))
      in put32 de 28 (size_bytes iino))"

text \<open>
  The first cluster that \<open>fat_readdir\<close> computes from the two cluster fields of an entry.
\<close>

definition entry_first_cluster :: "slot \<Rightarrow> u32" where
  "entry_first_cluster de =
     push_bit 16 (ucast (de_cluster_high de)) + ucast (de_cluster_low de)"

subsection \<open>\<open>fat_unlink\<close> and \<open>fat_rmdir\<close>\<close>

text \<open>The loop of \<open>fat_unlink\<close> that finds the entry; it does not skip deleted entries.\<close>

function unlink_scan :: "u8 list \<Rightarrow> nat \<Rightarrow> u32 \<Rightarrow> nat option option" where
  "unlink_scan buf k num =
     (if num > 2 \<and> 32 * k < length buf
      then (if buf ! (32 * k) = 0 then Some None
            else if length buf \<le> 32 * k + 11 then None
            else if buf ! (32 * k + 11) = FAT_DIR_LONGNAME
            then unlink_scan buf (k + 1) num
            else unlink_scan buf (k + 1) (num - 1))
      else Some (Some k))"
  by pat_completeness auto
termination
  by (relation "measure (\<lambda>(buf, k, num). length buf - 32 * k)") auto

declare unlink_scan.simps [simp del]

text \<open>\<open>while(clusters[i]) { fat_write_fat(fs, clusters[i], 0); i++; }\<close>\<close>

fun free_clusters :: "fat_fs \<Rightarrow> u32 list \<Rightarrow> fat_fs option" where
  "free_clusters fs [] = None"
| "free_clusters fs (c # cs) =
     (if c = 0 then Some fs
      else (case fat_write_fat fs c 0 of
              None \<Rightarrow> None
            | Some fs' \<Rightarrow> free_clusters fs' cs))"

text \<open>\<open>fat_unlink\<close> returns its status and the volume.\<close>

definition fat_unlink ::
    "(tm \<Rightarrow> u64) \<Rightarrow> fat_fs \<Rightarrow> u32 \<Rightarrow> u32 \<Rightarrow> (u32 \<times> fat_fs) option" where
  "fat_unlink mktime fs dir num =
     (if dir = 0 \<or> num < 2 then Some (1, fs)
      else
        case fat_get_inode fs dir of
          None \<Rightarrow> None
        | Some None \<Rightarrow> Some (1, fs)
        | Some (Some dir_ino) \<Rightarrow>
            if type dir_ino \<noteq> FAT_DIR_DIRECTORY then Some (1, fs)
            else
              case fat_readdir mktime fs dir num of
                None \<Rightarrow> None
              | Some (None, fs1) \<Rightarrow> None
              | Some (Some dirent, fs1) \<Rightarrow>
              let item = d_ino dirent in
              case fat_clustercount fs1 dir of
                None \<Rightarrow> None
              | Some cc \<Rightarrow>
              let sz = cc * fat_clustersize fs1 in
              case fat_read fs1 dir (ucast sz) 0 of
                None \<Rightarrow> None
              | Some (r, bytes) \<Rightarrow>
              case blit (replicate (unat sz) 0) 0 bytes of
                None \<Rightarrow> None
              | Some buffer \<Rightarrow>
              let num = (if dir \<noteq> 1 then num + 2 else num) in
              case unlink_scan buffer 0 num of
                None \<Rightarrow> None
              | Some None \<Rightarrow> Some (1, fs1)
              | Some (Some start) \<Rightarrow>
                  if length buffer \<le> 32 * start then None
                  else if buffer ! (32 * start) = 0 then Some (1, fs1)
                  else
                    case skip_longname buffer start of
                      None \<Rightarrow> None
                    | Some k \<Rightarrow>
                        if length buffer < 32 * (k + 1) then None
                        else
                          let buffer2 = take (32 * start) buffer @ drop (32 * (k + 1)) buffer
                                          @ replicate (32 * (k + 1) - 32 * start) 0
                          in case fat_write fs1 dir buffer2 (ucast sz) 0 of
                               None \<Rightarrow> None
                             | Some (w, fs2) \<Rightarrow>
                                 (case fat_get_clusters fs2 item of
                                    None \<Rightarrow> None
                                  | Some clusters \<Rightarrow>
                                      map_option (Pair 0) (free_clusters fs2 clusters)))"

text \<open>
  \<open>fat_rmdir\<close> returns its status and the volume. The status of \<open>fat_unlink\<close> is not
  used. A null \<open>dirent\<close> from the first \<open>fat_readdir\<close> is dereferenced.
\<close>

definition fat_rmdir ::
    "(tm \<Rightarrow> u64) \<Rightarrow> fat_fs \<Rightarrow> u32 \<Rightarrow> u32 \<Rightarrow> (u32 \<times> fat_fs) option" where
  "fat_rmdir mktime fs dir num =
     (if dir = 0 then Some (1, fs)
      else
        case fat_readdir mktime fs dir num of
          None \<Rightarrow> None
        | Some (None, fs1) \<Rightarrow> None
        | Some (Some de, fs1) \<Rightarrow>
            let target = d_ino de in
            case fat_readdir mktime fs1 target 2 of
              None \<Rightarrow> None
            | Some (Some d, fs2) \<Rightarrow> Some (1, fs2)
            | Some (None, fs2) \<Rightarrow>
                (case fat_unlink mktime fs2 dir num of
                   None \<Rightarrow> None
                 | Some (status, fs3) \<Rightarrow> Some (0, fs3)))"

section \<open>Notions used in the statements\<close>

text \<open>
  The free clusters that \<open>fat_find_free\<close> can find; a chain of clusters, each entry
  pointing to the next cluster and the last entry holding \<open>FAT_END\<close>; and the number of
  clusters that a file of \<open>s\<close> bytes needs with clusters of \<open>cs\<close> bytes.
\<close>

definition free_set :: "fat_fs \<Rightarrow> u32 set" where
  "free_set fs = {i. 3 \<le> i \<and> i < fat_num_clusters fs \<and> fat_read_fat fs i = Some 0}"

fun is_chain :: "fat_fs \<Rightarrow> u32 list \<Rightarrow> bool" where
  "is_chain fs [] = False"
| "is_chain fs [c] = (c < FAT_END \<and> fat_read_fat fs c = Some FAT_END)"
| "is_chain fs (c # d # ds) =
     (c < FAT_END \<and> fat_read_fat fs c = Some d \<and> is_chain fs (d # ds))"

definition clusters_needed :: "u32 \<Rightarrow> u32 \<Rightarrow> nat" where
  "clusters_needed s cs = max 1 ((unat s + unat cs - 1) div unat cs)"

text \<open>
  The number of times the loop of \<open>fat_touch\<close> runs when it starts with the signed
  counter \<open>sz\<close> and clusters of \<open>c\<close> bytes.
\<close>

definition loop_steps :: "u32 \<Rightarrow> u32 \<Rightarrow> nat" where
  "loop_steps sz c = (if 0 <s sz then (unat sz + unat c - 1) div unat c else 0)"

text \<open>A small FAT12 volume used to evaluate the model: eight clusters, a 16-byte FAT.\<close>

definition example_fs :: fat_fs where
  "example_fs =
     \<lparr>fat_num_clusters = 8, fat_clustersize = 4096, fat_first_data_sector = 20,
      fat_root_sectors = 15, sectors_per_cluster = 8, root_count = 240,
      fat = [0xF0, 0xFF, 0xFF, 0x00, 0x40, 0x00, 0xF8, 0x0F,
             0x00, 0x00, 0x00, 0x00, 0x00, 0x00, 0x00, 0x00],
      inodes = [\<lparr>parent = 1, type = 0x10, cluster = 0, size_bytes = 0,
                 atime = 0, ctime = 0, mtime = 0\<rparr>],
      next_ino = 2, part = (\<lambda>_. [])\<rparr>"

text \<open>The name "hello-world-name.txt" and a run of zero-filled directory slots.\<close>

definition hello_name :: "u8 list" where
  "hello_name = [0x68, 0x65, 0x6C, 0x6C, 0x6F, 0x2D, 0x77, 0x6F, 0x72, 0x6C,
                 0x64, 0x2D, 0x6E, 0x61, 0x6D, 0x65, 0x2E, 0x74, 0x78, 0x74]"

definition blank_slots :: "nat \<Rightarrow> slot list" where
  "blank_slots n = replicate n (replicate 32 0)"

text \<open>An inode whose first cluster is 256, and a \<open>gmtime\<close> that gives midnight of day 0.\<close>

definition inode_256 :: fat_inode where
  "inode_256 = \<lparr>parent = 1, type = 0x20, cluster = 0x100, size_bytes = 5000,
                 atime = 0, ctime = 0, mtime = 0\<rparr>"

definition gmtime_zero :: "u64 \<Rightarrow> tm" where
  "gmtime_zero t = \<lparr>tm_sec = 0, tm_min = 0, tm_hour = 0, tm_mday = 0, tm_mon = 0, tm_year = 0\<rparr>"

text \<open>The same volume with clusters of one sector and a root directory of one cluster.\<close>

definition small_fs :: fat_fs where
  "small_fs = example_fs\<lparr>fat_clustersize := 512, sectors_per_cluster := 1, root_count := 16\<rparr>"

definition mktime_zero :: "tm \<Rightarrow> u64" where
  "mktime_zero t = 0"

text \<open>
  The volume with the entries 3 to 7 in use (the chain 3, 4 and one cluster each in 5, 6
  and 7) and the entries 8 and 9, the last two clusters of the data area, reading 0.
\<close>

definition scan_end_fs :: fat_fs where
  "scan_end_fs =
     example_fs\<lparr>fat := [0xF0, 0xFF, 0xFF, 0x00, 0x40, 0x00, 0xF8, 0x8F,
                         0xFF, 0xF8, 0x8F, 0xFF, 0x00, 0x00, 0x00, 0x00]\<rparr>"



text \<open>The \<open>fstat_t\<close> of a regular file of 5000 bytes.\<close>

definition stat_5000 :: fstat where
  "stat_5000 = \<lparr>st_size = 5000, st_mode = 0, st_atime = 0, st_ctime = 0, st_mtime = 0\<rparr>"

section \<open>Proofs: the FAT table\<close>

lemma m12: "(0x0FFF :: 'a::len word) = mask 12" by (simp add: mask_eq_exp_minus_1)
lemma m4: "(0xF :: 'a::len word) = mask 4" by (simp add: mask_eq_exp_minus_1)
lemma mF0: "(0xF0 :: u8) = push_bit 4 (mask 4)" by (simp add: mask_eq_exp_minus_1)
lemma mF000': "(0xF000 :: u32) = push_bit 12 (mask 4)" by (simp add: mask_eq_exp_minus_1)

lemma b8: "bit (a::u8) n \<Longrightarrow> n < 8" by (auto dest: bit_imp_le_length)

lemma even_get: "(ucast ((ucast (a::u8) OR push_bit 8 (ucast (b::u8)) :: u16) AND 0x0FFF) :: u32)
   = ucast a OR push_bit 8 (ucast (b AND 0xF))"
  unfolding m12 m4
  by (rule bit_eqI) (auto simp: bit_simps dest: b8)

lemma odd_get: "(ucast (drop_bit 4 (ucast (a::u8) OR push_bit 8 (ucast (b::u8)) :: u16)) :: u32)
   = ucast (drop_bit 4 a) OR push_bit 4 (ucast b)"
  by (rule bit_eqI) (auto simp: bit_simps dest: b8)

lemma odd_get': "(ucast (drop_bit 4 (ucast (a::u8) :: u16) OR drop_bit 4 (push_bit 8 (ucast (b::u8)) :: u16)) :: u32)
   = ucast (drop_bit 4 a) OR push_bit 4 (ucast b)"
  by (rule bit_eqI) (auto simp: bit_simps dest: b8)

lemma even_set_lo: "(ucast (ucast (((ucast (ucast (a::u8) OR push_bit 8 (ucast (b::u8)) :: u16) :: u32) AND 0xF000) OR (v AND 0x0FFF)) :: u16) :: u8)
   = ucast (v::u32)"
  unfolding m12 mF000'
  by (rule bit_eqI) (auto simp: bit_simps dest: b8)

lemma even_set_hi: "(ucast (drop_bit 8 (ucast (((ucast (ucast (a::u8) OR push_bit 8 (ucast (b::u8)) :: u16) :: u32) AND 0xF000) OR (v AND 0x0FFF)) :: u16)) :: u8)
   = (b AND 0xF0) OR (ucast (drop_bit 8 v) AND 0x0F)"
  unfolding m12 mF000' mF0 m4
  by (rule bit_eqI) (auto simp: bit_simps dest: b8)

lemma odd_set_lo: "(ucast (ucast (((ucast (ucast (a::u8) OR push_bit 8 (ucast (b::u8)) :: u16) :: u32) AND 0x000F) OR push_bit 4 v) :: u16) :: u8)
   = (a AND 0x0F) OR push_bit 4 (ucast (v::u32))"
  unfolding m4
  by (rule bit_eqI) (auto simp: bit_simps dest: b8)

lemma odd_set_hi: "(ucast (drop_bit 8 (ucast (((ucast (ucast (a::u8) OR push_bit 8 (ucast (b::u8)) :: u16) :: u32) AND 0x000F) OR push_bit 4 v) :: u16)) :: u8)
   = ucast (drop_bit 4 (v::u32))"
  unfolding m4
  by (rule bit_eqI) (auto simp: bit_simps dest: b8)

lemma lt12: "(v::u32) < 0x1000 \<Longrightarrow> v AND mask 12 = v"
  using less_mask_eq[of v 12] by simp
lemma lt12': "(v::u32) < 0x1000 \<Longrightarrow> bit v n \<Longrightarrow> n < 12"
  by (metis lt12 bit_and_iff bit_mask_iff)

lemma even_rt: "v < 0x1000 \<Longrightarrow> ucast (ucast (v::u32) :: u8) OR push_bit 8 (ucast ((((b::u8) AND 0xF0) OR (ucast (drop_bit 8 v) AND 0x0F)) AND 0xF)) = v"
  unfolding mF0 m4
  by (rule bit_eqI) (auto simp: bit_simps dest: b8 lt12')

lemma odd_rt: "v < 0x1000 \<Longrightarrow> ucast (drop_bit 4 (((a::u8) AND 0x0F) OR push_bit 4 (ucast (v::u32)))) OR push_bit 4 (ucast (ucast (drop_bit 4 v) :: u8)) = v"
  unfolding mF0 m4
  by (rule bit_eqI) (auto simp: bit_simps dest: b8 lt12')

(* neighbours *)
lemma even_keeps_hi: "drop_bit 4 (((b::u8) AND 0xF0) OR (x AND 0x0F)) = drop_bit 4 b"
  unfolding mF0 m4
  by (rule bit_eqI) (auto simp: bit_simps dest: b8)

lemma odd_keeps_lo: "(((a::u8) AND 0x0F) OR push_bit 4 x) AND 0xF = a AND 0xF"
  unfolding mF0 m4
  by (rule bit_eqI) (auto simp: bit_simps dest: b8)

lemmas fat12_bit_rules = even_rt odd_rt even_keeps_hi odd_keeps_lo
  even_rt[simplified] odd_rt[simplified] even_keeps_hi[simplified] odd_keeps_lo[simplified]

lemma odd_word_unat: "((c::u32) AND 1 \<noteq> 0) = odd (unat c)"
  using and_mask_dvd_nat[of 1 c] by simp

lemma unat_offset: "fat_offset c < 2 ^ 32 \<Longrightarrow> unat (c + c div 2) = fat_offset c"
  unfolding fat_offset_def
  using unat_add_lem[of c "c div 2"] by (simp add: unat_div)

lemma fat12_get_bytes:
  assumes "fat_bits fs = 12" "fat_offset c + 1 < length (fat fs)" "length (fat fs) \<le> 2 ^ 32"
  shows "fat_read_fat fs c = Some (if odd (unat c)
     then ucast (drop_bit 4 (fat fs ! fat_offset c)) OR push_bit 4 (ucast (fat fs ! (fat_offset c + 1)))
     else ucast (fat fs ! fat_offset c) OR push_bit 8 (ucast (fat fs ! (fat_offset c + 1) AND 0xF)))"
proof -
  have "unat (c + c div 2) = fat_offset c" using assms by (intro unat_offset) simp
  then show ?thesis using assms
    by (simp add: fat_read_fat_def load16_def Let_def odd_word_unat even_get odd_get odd_get')
qed

lemma fat12_set_bytes:
  assumes "fat_bits fs = 12" "fat_offset c + 1 < length (fat fs)" "length (fat fs) \<le> 2 ^ 32"
  shows "fat_write_fat fs c s = Some (fs\<lparr>fat := (fat fs)
     [fat_offset c := (if odd (unat c) then (fat fs ! fat_offset c AND 0x0F) OR push_bit 4 (ucast s) else ucast s),
      fat_offset c + 1 := (if odd (unat c) then ucast (drop_bit 4 s)
           else (fat fs ! (fat_offset c + 1) AND 0xF0) OR (ucast (drop_bit 8 s) AND 0x0F))]\<rparr>)"
proof -
  have "unat (c + c div 2) = fat_offset c" using assms by (intro unat_offset) simp
  then show ?thesis using assms
    by (simp add: fat_write_fat_def load16_def store16_def Let_def odd_word_unat
         even_set_lo even_set_hi odd_set_lo odd_set_hi)
qed

lemma fat_offset_cases:
  fixes a b :: nat
  assumes "b \<noteq> a"
  shows "(b + b div 2 + 1 < a + a div 2 \<or> a + a div 2 + 1 < b + b div 2)
       \<or> (even a \<and> b = a + 1) \<or> (odd a \<and> a = b + 1)"
  using assms by (cases "even a"; cases "even b") (auto elim!: evenE oddE)

lemma find_free_from_spec:
  assumes rd: "\<And>k. k < fat_num_clusters fs \<Longrightarrow> \<exists>v. fat_read_fat fs k = Some v"
  shows "\<exists>r. find_free_from fs i = Some r \<and>
     (if \<exists>k. i \<le> k \<and> k < fat_num_clusters fs \<and> fat_read_fat fs k = Some 0
      then i \<le> r \<and> r < fat_num_clusters fs \<and> fat_read_fat fs r = Some 0 \<and>
           (\<forall>j. i \<le> j \<and> j < r \<longrightarrow> fat_read_fat fs j \<noteq> Some 0)
      else r = 0)"
  using assms
proof (induction fs i rule: find_free_from.induct)
  case (1 fs i)
  note rd = "1.prems"
  show ?case
  proof (cases "i < fat_num_clusters fs")
    case False
    then have none: "\<not> (\<exists>k. i \<le> k \<and> k < fat_num_clusters fs \<and> fat_read_fat fs k = Some 0)"
      by auto
    from False have "find_free_from fs i = Some 0" by (subst find_free_from.simps) simp
    then show ?thesis unfolding if_not_P[OF none] by simp
  next
    case True
    from rd[OF True] obtain v where v: "fat_read_fat fs i = Some v" by blast
    show ?thesis
    proof (cases "v = 0")
      case True
      with v \<open>i < fat_num_clusters fs\<close> have ff: "find_free_from fs i = Some i" by (subst find_free_from.simps) simp
      have ex: "\<exists>k. i \<le> k \<and> k < fat_num_clusters fs \<and> fat_read_fat fs k = Some 0"
        using v True \<open>i < fat_num_clusters fs\<close> by auto
      have "\<forall>j. i \<le> j \<and> j < i \<longrightarrow> fat_read_fat fs j \<noteq> Some 0" by auto
      with ff v True \<open>i < fat_num_clusters fs\<close> show ?thesis unfolding if_P[OF ex] by simp
    next
      case False
      with v \<open>i < fat_num_clusters fs\<close>
      have ff: "find_free_from fs i = find_free_from fs (i + 1)" by (subst find_free_from.simps) simp
      have suc: "unat (i + 1) = Suc (unat i)"
        using \<open>i < fat_num_clusters fs\<close> by (rule unat_inc_less)
      have step: "\<And>k. (i + 1 \<le> k) = (i \<le> k \<and> k \<noteq> i)"
        using suc by (auto simp: word_le_nat_alt word_unat_eq_iff)
      have ni: "fat_read_fat fs i \<noteq> Some 0" using v False by simp
      have exeq: "(\<exists>k. i + 1 \<le> k \<and> k < fat_num_clusters fs \<and> fat_read_fat fs k = Some 0)
          = (\<exists>k. i \<le> k \<and> k < fat_num_clusters fs \<and> fat_read_fat fs k = Some 0)"
        using ni by (auto simp: step)
      from "1.IH"[OF \<open>i < fat_num_clusters fs\<close> v False rd]
      obtain r where r: "find_free_from fs (i + 1) = Some r"
        and rs: "(if \<exists>k. i + 1 \<le> k \<and> k < fat_num_clusters fs \<and> fat_read_fat fs k = Some 0
      then i + 1 \<le> r \<and> r < fat_num_clusters fs \<and> fat_read_fat fs r = Some 0 \<and>
           (\<forall>j. i + 1 \<le> j \<and> j < r \<longrightarrow> fat_read_fat fs j \<noteq> Some 0)
      else r = 0)" by blast
      show ?thesis
      proof (cases "\<exists>k. i \<le> k \<and> k < fat_num_clusters fs \<and> fat_read_fat fs k = Some 0")
        case True
        with rs exeq have a: "i + 1 \<le> r" "r < fat_num_clusters fs" "fat_read_fat fs r = Some 0"
          and b: "\<forall>j. i + 1 \<le> j \<and> j < r \<longrightarrow> fat_read_fat fs j \<noteq> Some 0" by simp_all
        from a have "i \<le> r" by (simp add: step)
        moreover have "\<forall>j. i \<le> j \<and> j < r \<longrightarrow> fat_read_fat fs j \<noteq> Some 0"
          using b ni by (metis step)
        ultimately show ?thesis using ff r a unfolding if_P[OF True] by simp
      next
        case False
        with rs exeq have "r = 0" by simp
        with ff r show ?thesis unfolding if_not_P[OF False] by simp
      qed
    qed
  qed
qed

lemma fat12_write_read:
  assumes "fat_bits fs = 12" and "length (fat fs) \<le> 2 ^ 32"
    and "fat_offset n + 1 < length (fat fs)" and "fat_offset m + 1 < length (fat fs)"
    and "v < 0x1000"
  shows "\<exists>fs'. fat_write_fat fs n v = Some fs' \<and> fs' = fs\<lparr>fat := fat fs'\<rparr> \<and>
           length (fat fs') = length (fat fs) \<and> fat_read_fat fs' n = Some v \<and>
           (m \<noteq> n \<longrightarrow> fat_read_fat fs' m = fat_read_fat fs m)"
proof -
  let ?o = "fat_offset n"
  let ?A = "(if odd (unat n) then (fat fs ! ?o AND 0x0F) OR push_bit 4 (ucast v) else ucast v)"
  let ?B = "(if odd (unat n) then ucast (drop_bit 4 v)
           else (fat fs ! (?o + 1) AND 0xF0) OR (ucast (drop_bit 8 v) AND 0x0F))"
  let ?fs' = "fs\<lparr>fat := (fat fs)[?o := ?A, ?o + 1 := ?B]\<rparr>"
  have w: "fat_write_fat fs n v = Some ?fs'"
    using assms by (intro fat12_set_bytes) simp_all
  have "fat_bits ?fs' = fat_bits fs" by (simp add: fat_bits_def)
  with assms have bits': "fat_bits ?fs' = 12" by simp
  have len': "length (fat ?fs') = length (fat fs)" by simp
  have rn: "fat_read_fat ?fs' n = Some v"
    using assms by (subst fat12_get_bytes[OF bits']) (auto simp: fat12_bit_rules)
  have rm: "fat_read_fat ?fs' m = fat_read_fat fs m" if "m \<noteq> n"
  proof -
    from that have ne: "unat m \<noteq> unat n" by (simp add: word_unat_eq_iff)
    consider (far) "fat_offset m + 1 < ?o \<or> ?o + 1 < fat_offset m"
      | (up) "even (unat n)" "unat m = unat n + 1"
      | (down) "odd (unat n)" "unat n = unat m + 1"
      using fat_offset_cases[OF ne] unfolding fat_offset_def by blast
    then show ?thesis
    proof cases
      case far
      then show ?thesis using assms
        by (subst fat12_get_bytes[OF bits']) (auto simp: fat12_get_bytes)
    next
      case up
      then have "fat_offset m = ?o + 1" unfolding fat_offset_def by simp
      then show ?thesis using assms up
        by (subst fat12_get_bytes[OF bits']) (auto simp: fat12_get_bytes fat12_bit_rules)
    next
      case down
      then have "?o = fat_offset m + 1" unfolding fat_offset_def by simp
      then show ?thesis using assms down
        by (subst fat12_get_bytes[OF bits']) (auto simp: fat12_get_bytes fat12_bit_rules)
    qed
  qed
  have fr: "?fs' = fs\<lparr>fat := fat ?fs'\<rparr>" "length (fat ?fs') = length (fat fs)" by simp_all
  from w rn rm fr show ?thesis by blast
qed

text \<open>
  Claim C3. On a FAT12 volume, writing a 12-bit value \<open>v\<close> into entry \<open>n\<close> makes a read of
  entry \<open>n\<close> return \<open>v\<close> and leaves the value read from every other entry \<open>m\<close> as it
  was, for entries that lie inside the FAT buffer.
\<close>

theorem fat12_set_get:
  assumes "fat_bits fs = 12" and "length (fat fs) \<le> 2 ^ 32"
    and "fat_offset n + 1 < length (fat fs)" and "fat_offset m + 1 < length (fat fs)"
    and "v < 0x1000"
  shows "\<exists>fs'. fat_write_fat fs n v = Some fs' \<and> fat_read_fat fs' n = Some v \<and>
           (m \<noteq> n \<longrightarrow> fat_read_fat fs' m = fat_read_fat fs m)"
  using fat12_write_read [OF assms] by blast

theorem fat12_set_get_witness:
  "fat_bits example_fs = 12 \<and> length (fat example_fs) \<le> 2 ^ 32 \<and>
   fat_offset 3 + 1 < length (fat example_fs) \<and> fat_offset 2 + 1 < length (fat example_fs) \<and>
   (0xABC :: u32) < 0x1000 \<and>
   (\<exists>fs'. fat_write_fat example_fs 3 0xABC = Some fs' \<and> fat_read_fat fs' 3 = Some 0xABC \<and>
      fat_read_fat fs' 2 = fat_read_fat example_fs 2)"
  using fat12_set_get [of example_fs 3 2 "0xABC"]
  by (simp add: example_fs_def fat_bits_def fat_offset_def)

lemma fat_read_fat_total:
  assumes "fat_bits fs = 12 \<longrightarrow> fat_covers fs" and "k < fat_num_clusters fs"
  shows "\<exists>v. fat_read_fat fs k = Some v"
proof (cases "fat_bits fs = 12")
  case False
  then show ?thesis by (simp add: fat_read_fat_def)
next
  case True
  with assms have c: "fat_offset (fat_num_clusters fs) < length (fat fs)" "length (fat fs) \<le> 2 ^ 32"
    by (simp_all add: fat_covers_def)
  from assms(2) have "unat k < unat (fat_num_clusters fs)" by (simp add: word_less_nat_alt)
  then have "fat_offset k + 1 \<le> fat_offset (fat_num_clusters fs)"
    unfolding fat_offset_def by arith
  with c have "fat_offset k + 1 < length (fat fs)" by simp
  with True c show ?thesis by (simp add: fat12_get_bytes)
qed

text \<open>
  Claim C9, with the range of the scan. \<open>fat_find_free\<close> returns the smallest index \<open>i\<close>
  with \<open>3 \<le> i < fat_num_clusters\<close> whose FAT entry reads 0, so every index from 3 to
  \<open>i - 1\<close> has a nonzero entry and 2 is never returned; it returns 0 when no index from 3 to
  \<open>fat_num_clusters - 1\<close> has a zero entry. The entries \<open>fat_num_clusters\<close> and
  \<open>fat_num_clusters + 1\<close> are not examined.
\<close>

theorem fat_find_free_smallest:
  assumes "fat_bits fs = 12 \<longrightarrow> fat_covers fs"
  shows "\<exists>r. fat_find_free fs = Some r \<and> r \<noteq> 2 \<and>
     (if \<exists>k. 3 \<le> k \<and> k < fat_num_clusters fs \<and> fat_read_fat fs k = Some 0
      then 3 \<le> r \<and> r < fat_num_clusters fs \<and> fat_read_fat fs r = Some 0 \<and>
           (\<forall>j. 3 \<le> j \<and> j < r \<longrightarrow> fat_read_fat fs j \<noteq> Some 0)
      else r = 0)"
proof -
  have rd: "\<And>k. k < fat_num_clusters fs \<Longrightarrow> \<exists>v. fat_read_fat fs k = Some v"
    using assms by (rule fat_read_fat_total)
  from find_free_from_spec[OF rd, of 3]
  obtain r where r: "find_free_from fs 3 = Some r"
    and rs: "(if \<exists>k. 3 \<le> k \<and> k < fat_num_clusters fs \<and> fat_read_fat fs k = Some 0
      then 3 \<le> r \<and> r < fat_num_clusters fs \<and> fat_read_fat fs r = Some 0 \<and>
           (\<forall>j. 3 \<le> j \<and> j < r \<longrightarrow> fat_read_fat fs j \<noteq> Some 0)
      else r = 0)" by blast
  from rs have "r \<noteq> 2" by (auto split: if_splits)
  with r rs show ?thesis unfolding fat_find_free_def by blast
qed

theorem fat_find_free_smallest_witness:
  "fat_covers example_fs \<and> fat_find_free example_fs = Some 5 \<and>
   fat_read_fat example_fs 5 = Some 0 \<and> fat_read_fat example_fs 3 = Some 4 \<and>
   fat_read_fat example_fs 4 = Some 0xFF8 \<and> fat_read_fat example_fs 2 = Some 0"
proof -
  have c: "fat_covers example_fs"
    by (simp add: fat_covers_def fat_offset_def example_fs_def)
  have n: "fat_num_clusters example_fs = 8"
    by (simp add: example_fs_def)
  have rd: "fat_read_fat example_fs 2 = Some 0" "fat_read_fat example_fs 3 = Some 4"
    "fat_read_fat example_fs 4 = Some 0xFF8" "fat_read_fat example_fs 5 = Some 0"
    by (simp_all add: example_fs_def fat_read_fat_def fat_bits_def load16_def)
  have e: "\<exists>k. 3 \<le> k \<and> k < fat_num_clusters example_fs \<and> fat_read_fat example_fs k = Some 0"
    unfolding n using rd(4) by (intro exI[of _ 5]) simp
  have h: "fat_bits example_fs = 12 \<longrightarrow> fat_covers example_fs"
    using c by simp
  note t = fat_find_free_smallest [OF h, unfolded if_P[OF e], unfolded n]
  from t obtain r where r: "fat_find_free example_fs = Some r" "3 \<le> r" "r < 8"
    "fat_read_fat example_fs r = Some 0"
    "\<forall>j. 3 \<le> j \<and> j < r \<longrightarrow> fat_read_fat example_fs j \<noteq> Some 0"
    by blast
  have "r = 5"
  proof (rule ccontr)
    assume ne: "r \<noteq> 5"
    from r(2,3) have "unat r = 3 \<or> unat r = 4 \<or> unat r = 5 \<or> unat r = 6 \<or> unat r = 7"
      by (simp add: word_le_nat_alt word_less_nat_alt) arith
    then have "r = 3 \<or> r = 4 \<or> r = 5 \<or> r = 6 \<or> r = 7"
      by (simp add: word_unat_eq_iff)
    with ne r(4) rd r(5) show False
      by (elim disjE) auto
  qed
  with r(1) c rd show ?thesis by simp
qed

text \<open>
  On \<open>scan_end_fs\<close> the entries 3 to 7 are in use and entry 8 reads 0: the smallest index
  from 3 up with a zero entry is 8, and \<open>fat_find_free\<close> returns 0.
\<close>

theorem fat_find_free_smallest_counterexample:
  "fat_num_clusters scan_end_fs = 8 \<and>
   fat_read_fat scan_end_fs 3 = Some 4 \<and> fat_read_fat scan_end_fs 4 = Some 0xFF8 \<and>
   fat_read_fat scan_end_fs 5 = Some 0xFF8 \<and> fat_read_fat scan_end_fs 6 = Some 0xFF8 \<and>
   fat_read_fat scan_end_fs 7 = Some 0xFF8 \<and> fat_read_fat scan_end_fs 8 = Some 0 \<and>
   fat_find_free scan_end_fs = Some 0"
  unfolding fat_find_free_def
  by (simp add: find_free_from.simps scan_end_fs_def example_fs_def fat_read_fat_def fat_bits_def
        load16_def Let_def)

section \<open>Proofs: allocation\<close>

lemma fat_in_range:
  assumes "fat_covers fs" and "k < fat_num_clusters fs"
  shows "fat_offset k + 1 < length (fat fs)"
proof -
  from assms(2) have "unat k < unat (fat_num_clusters fs)" by (simp add: word_less_nat_alt)
  then have "fat_offset k + 1 \<le> fat_offset (fat_num_clusters fs)"
    unfolding fat_offset_def by arith
  with assms(1) show ?thesis by (simp add: fat_covers_def)
qed

lemma fat12_write_frame:
  assumes bits: "fat_bits fs = 12" and len: "length (fat fs) \<le> 2 ^ 32"
    and n: "fat_offset n + 1 < length (fat fs)" and v: "v < 0x1000"
  shows "\<exists>fs'. fat_write_fat fs n v = Some fs' \<and> fs' = fs\<lparr>fat := fat fs'\<rparr> \<and>
           length (fat fs') = length (fat fs) \<and> fat_read_fat fs' n = Some v \<and>
           (\<forall>m. fat_offset m + 1 < length (fat fs) \<and> m \<noteq> n \<longrightarrow>
                fat_read_fat fs' m = fat_read_fat fs m)"
proof -
  from fat12_write_read[OF bits len n n v]
  obtain fs' where w: "fat_write_fat fs n v = Some fs'" and fr: "fs' = fs\<lparr>fat := fat fs'\<rparr>"
    "length (fat fs') = length (fat fs)" and rn: "fat_read_fat fs' n = Some v" by blast
  have "fat_read_fat fs' m = fat_read_fat fs m" if "fat_offset m + 1 < length (fat fs)" "m \<noteq> n" for m
    using fat12_write_read[OF bits len n that(1) v] w that(2) by auto
  with w fr rn show ?thesis by blast
qed

lemma frame_geometry:
  assumes "fs' = fs\<lparr>fat := fat fs'\<rparr>" and "length (fat fs') = length (fat fs)"
  shows "fat_bits fs' = fat_bits fs" "fat_covers fs' = fat_covers fs"
    "fat_num_clusters fs' = fat_num_clusters fs" "fat_clustersize fs' = fat_clustersize fs"
    "inodes fs' = inodes fs" "next_ino fs' = next_ino fs" "part fs' = part fs"
proof -
  have g: "fat_num_clusters fs' = fat_num_clusters fs" "fat_clustersize fs' = fat_clustersize fs"
    "inodes fs' = inodes fs" "next_ino fs' = next_ino fs" "part fs' = part fs"
    by (subst assms(1), simp)+
  then show "fat_num_clusters fs' = fat_num_clusters fs" "fat_clustersize fs' = fat_clustersize fs"
    "inodes fs' = inodes fs" "next_ino fs' = next_ino fs" "part fs' = part fs" by simp_all
  from g assms(2) show "fat_bits fs' = fat_bits fs" "fat_covers fs' = fat_covers fs"
    by (simp_all add: fat_bits_def fat_covers_def)
qed

lemma find_free_from_cong:
  assumes "fat_num_clusters fs' = fat_num_clusters fs"
    and "\<And>k. i \<le> k \<Longrightarrow> k < fat_num_clusters fs \<Longrightarrow> fat_read_fat fs' k = fat_read_fat fs k"
  shows "find_free_from fs' i = find_free_from fs i"
  using assms
proof (induction fs i rule: find_free_from.induct)
  case (1 fs i)
  show ?case
  proof (cases "i < fat_num_clusters fs")
    case False
    with "1.prems"(1) show ?thesis
      by (subst find_free_from.simps, subst (2) find_free_from.simps) simp
  next
    case True
    have ri: "fat_read_fat fs' i = fat_read_fat fs i" using "1.prems"(2)[of i] True by simp
    show ?thesis
    proof (cases "fat_read_fat fs i")
      case None
      with True ri "1.prems"(1) show ?thesis
        by (subst find_free_from.simps, subst (2) find_free_from.simps) simp
    next
      case (Some v)
      show ?thesis
      proof (cases "v = 0")
        case True
        with Some \<open>i < fat_num_clusters fs\<close> ri "1.prems"(1) show ?thesis
          by (subst find_free_from.simps, subst (2) find_free_from.simps) simp
      next
        case False
        have suc: "unat (i + 1) = Suc (unat i)"
          using \<open>i < fat_num_clusters fs\<close> by (rule unat_inc_less)
        have "find_free_from fs' (i + 1) = find_free_from fs (i + 1)"
        proof (rule "1.IH"[OF \<open>i < fat_num_clusters fs\<close> Some False "1.prems"(1)])
          fix k assume "i + 1 \<le> k" "k < fat_num_clusters fs"
          moreover from \<open>i + 1 \<le> k\<close> suc have "i \<le> k" by (simp add: word_le_nat_alt)
          ultimately show "fat_read_fat fs' k = fat_read_fat fs k" using "1.prems"(2) by simp
        qed
        with Some False \<open>i < fat_num_clusters fs\<close> ri "1.prems"(1) show ?thesis
          by (subst find_free_from.simps, subst (2) find_free_from.simps) simp
      qed
    qed
  qed
qed

lemma even_keeps_hi_mask: "((((b::u8) AND 0xF0) OR (x AND 0x0F)) AND 0xF0) = b AND 0xF0"
  unfolding mF0 m4
  by (rule bit_eqI) (auto simp: bit_simps dest: b8)

lemma fat12_write_write:
  assumes bits: "fat_bits fs = 12" and len: "length (fat fs) \<le> 2 ^ 32"
    and n: "fat_offset n + 1 < length (fat fs)"
    and w: "fat_write_fat fs n a = Some fsa"
  shows "fat_write_fat fsa n b = fat_write_fat fs n b"
proof -
  let ?o = "fat_offset n"
  note wa = fat12_set_bytes[OF bits n len, of a]
  from w wa have fa: "fsa = fs\<lparr>fat := (fat fs)
     [?o := (if odd (unat n) then (fat fs ! ?o AND 0x0F) OR push_bit 4 (ucast a) else ucast a),
      ?o + 1 := (if odd (unat n) then ucast (drop_bit 4 a)
           else (fat fs ! (?o + 1) AND 0xF0) OR (ucast (drop_bit 8 a) AND 0x0F))]\<rparr>"
    by simp
  have "fat_bits fsa = fat_bits fs" by (subst fa) (simp add: fat_bits_def)
  with bits have bits': "fat_bits fsa = 12" by simp
  have len': "length (fat fsa) = length (fat fs)" by (subst fa) simp
  have n': "fat_offset n + 1 < length (fat fsa)" using n len' by simp
  have lena: "length (fat fsa) \<le> 2 ^ 32" using len len' by simp
  note wb = fat12_set_bytes[OF bits' n' lena, of b]
  note wb0 = fat12_set_bytes[OF bits n len, of b]
  have o0: "fat fsa ! ?o = (if odd (unat n) then (fat fs ! ?o AND 0x0F) OR push_bit 4 (ucast a) else ucast a)"
    using n by (subst fa) simp
  have o1: "fat fsa ! (?o + 1) = (if odd (unat n) then ucast (drop_bit 4 a)
           else (fat fs ! (?o + 1) AND 0xF0) OR (ucast (drop_bit 8 a) AND 0x0F))"
    using n by (subst fa) simp
  have A: "(if odd (unat n) then (fat fsa ! ?o AND 0x0F) OR push_bit 4 (ucast b) else ucast b)
      = (if odd (unat n) then (fat fs ! ?o AND 0x0F) OR push_bit 4 (ucast b) else ucast b)"
    unfolding o0 by (simp add: odd_keeps_lo)
  have B: "(if odd (unat n) then ucast (drop_bit 4 b)
           else (fat fsa ! (?o + 1) AND 0xF0) OR (ucast (drop_bit 8 b) AND 0x0F))
      = (if odd (unat n) then ucast (drop_bit 4 b)
           else (fat fs ! (?o + 1) AND 0xF0) OR (ucast (drop_bit 8 b) AND 0x0F))"
    unfolding o1 by (simp add: even_keeps_hi_mask)
  have "fat_write_fat fsa n b = Some (fsa\<lparr>fat := (fat fsa)
     [?o := (if odd (unat n) then (fat fs ! ?o AND 0x0F) OR push_bit 4 (ucast b) else ucast b),
      ?o + 1 := (if odd (unat n) then ucast (drop_bit 4 b)
           else (fat fs ! (?o + 1) AND 0xF0) OR (ucast (drop_bit 8 b) AND 0x0F))]\<rparr>)"
    using wb unfolding A B .
  also have "\<dots> = fat_write_fat fs n b"
    unfolding wb0 by (subst fa, subst fa) (simp add: list_update_swap)
  finally show ?thesis .
qed

lemma FAT_END_12: "FAT_END < 0x1000" by (simp add: FAT_END_def)

lemma fat_find_free_cong:
  assumes "fat_num_clusters fs' = fat_num_clusters fs"
    and "\<And>k. 3 \<le> k \<Longrightarrow> k < fat_num_clusters fs \<Longrightarrow> fat_read_fat fs' k = fat_read_fat fs k"
  shows "fat_find_free fs' = fat_find_free fs"
  unfolding fat_find_free_def using assms by (rule find_free_from_cong)

lemma sless_pos_nonzero: "0 <s (x::u32) \<Longrightarrow> x \<noteq> 0"
  by (auto simp: word_sless_alt)

text \<open>On a full volume the loop of \<open>fat_touch\<close> rewrites entry 0 and changes nothing.\<close>

lemma touch_loop_full:
  assumes bits: "fat_bits fs0 = 12" and len: "length (fat fs0) \<le> 2 ^ 32"
    and l2: "fat_offset 0 + 1 < length (fat fs0)"
    and w: "fat_write_fat fs0 0 FAT_END = Some fs1"
    and full: "fat_find_free fs1 = Some 0"
    and cs: "fat_clustersize fs1 \<noteq> 0"
  shows "touch_loop fs1 0 sz = Some (fs1, 0)"
proof (induction "unat sz" arbitrary: sz rule: less_induct)
  case less
  from fat12_write_frame[OF bits len l2 FAT_END_12] w
  have fr1: "fs1 = fs0\<lparr>fat := fat fs1\<rparr>" "length (fat fs1) = length (fat fs0)" by auto
  note g1 = frame_geometry[OF fr1]
  have bits1: "fat_bits fs1 = 12" and len1: "length (fat fs1) \<le> 2 ^ 32"
    and l21: "fat_offset 0 + 1 < length (fat fs1)"
    using g1 bits len l2 fr1(2) by simp_all
  show ?case
  proof (cases "0 <s sz")
    case False
    then show ?thesis by (subst touch_loop.simps) simp
  next
    case True
    have z12: "(0::u32) < 0x1000" by simp
    from fat12_write_frame[OF bits1 len1 l21 z12]
    obtain fsa where wa: "fat_write_fat fs1 0 0 = Some fsa" and ra: "fat_read_fat fsa 0 = Some 0"
      and fra: "fsa = fs1\<lparr>fat := fat fsa\<rparr>" "length (fat fsa) = length (fat fs1)"
      by blast
    have "fat_write_fat fsa 0 FAT_END = fat_write_fat fs1 0 FAT_END"
      using bits1 len1 l21 wa by (rule fat12_write_write)
    also have "\<dots> = fat_write_fat fs0 0 FAT_END"
      using bits len l2 w by (rule fat12_write_write)
    finally have wb: "fat_write_fat fsa 0 FAT_END = Some fs1" using w by simp
    let ?sz' = "if fat_clustersize fs1 > sz then 0 else sz - fat_clustersize fs1"
    have step: "touch_loop fs1 0 sz = touch_loop fs1 0 ?sz'"
      using True full wa ra wb by (subst touch_loop.simps) simp
    from True have nz: "sz \<noteq> 0" by (rule sless_pos_nonzero)
    have dec: "unat ?sz' < unat sz"
    proof (cases "fat_clustersize fs1 > sz")
      case True
      with nz show ?thesis by (simp add: unat_gt_0)
    next
      case False
      then have le: "fat_clustersize fs1 \<le> sz" by simp
      then have "unat (sz - fat_clustersize fs1) = unat sz - unat (fat_clustersize fs1)"
        by (simp add: unat_sub)
      moreover from cs have "0 < unat (fat_clustersize fs1)" by (simp add: unat_gt_0)
      moreover from nz have "0 < unat sz" by (simp add: unat_gt_0)
      ultimately show ?thesis using False by simp
    qed
    from less[OF dec] step show ?thesis by simp
  qed
qed

lemma fat_write_fat_next_ino:
  "fat_write_fat (fs\<lparr>next_ino := x\<rparr>) c v = map_option (\<lambda>f. f\<lparr>next_ino := x\<rparr>) (fat_write_fat fs c v)"
  by (simp add: fat_write_fat_def fat_bits_def Let_def split: option.splits)

lemma fat_read_fat_next_ino:
  "fat_read_fat (fs\<lparr>next_ino := x\<rparr>) c = fat_read_fat fs c"
  by (simp add: fat_read_fat_def fat_bits_def Let_def)

lemma fat_read_fat_inodes:
  "fat_read_fat (fs\<lparr>inodes := x\<rparr>) c = fat_read_fat fs c"
  by (simp add: fat_read_fat_def fat_bits_def Let_def)

lemma fat_touch_full:
  assumes bits: "fat_bits fs = 12" and cov: "fat_covers fs" and l2: "1 < length (fat fs)"
    and full: "fat_find_free fs = Some 0"
    and cs: "fat_clustersize fs \<noteq> 0" and ino: "inodes fs \<noteq> []"
  shows "\<exists>fs' fsw. fat_touch s_dir fs st = Some (next_ino fs, fs') \<and>
           fat_write_fat fs 0 FAT_END = Some fsw \<and> fat fs' = fat fsw \<and>
           fat_read_fat fs' 0 = Some FAT_END \<and>
           (\<forall>m. m \<noteq> 0 \<and> fat_offset m + 1 < length (fat fs) \<longrightarrow>
                fat_read_fat fs' m = fat_read_fat fs m) \<and>
           length (inodes fs') = length (inodes fs) + 1 \<and>
           cluster (last (inodes fs')) = 0"
proof -
  let ?fs0 = "fs\<lparr>next_ino := next_ino fs + 1\<rparr>"
  from cov have len: "length (fat fs) \<le> 2 ^ 32" by (simp add: fat_covers_def)
  from l2 have o0: "fat_offset 0 + 1 < length (fat fs)" by (simp add: fat_offset_def)
  from fat12_write_frame[OF bits len o0 FAT_END_12]
  obtain fsw where w: "fat_write_fat fs 0 FAT_END = Some fsw"
    and frw: "fsw = fs\<lparr>fat := fat fsw\<rparr>" "length (fat fsw) = length (fat fs)"
    and r0: "fat_read_fat fsw 0 = Some FAT_END"
    and rm: "\<And>m. fat_offset m + 1 < length (fat fs) \<Longrightarrow> m \<noteq> 0 \<Longrightarrow>
               fat_read_fat fsw m = fat_read_fat fs m"
    by blast
  define fs1 where "fs1 = fsw\<lparr>next_ino := next_ino fs + 1\<rparr>"
  have "fat_bits ?fs0 = fat_bits fs" by (simp add: fat_bits_def)
  with bits have bits0: "fat_bits ?fs0 = 12" by simp
  have len0: "length (fat ?fs0) \<le> 2 ^ 32" using len by simp
  have o00: "fat_offset 0 + 1 < length (fat ?fs0)" using o0 by simp
  have w0: "fat_write_fat ?fs0 0 FAT_END = Some fs1"
    by (simp add: fat_write_fat_next_ino w fs1_def)
  have ff0: "fat_find_free ?fs0 = Some 0"
    using full fat_find_free_cong[of ?fs0 fs] by (simp add: fat_read_fat_next_ino)
  have rd1: "fat_read_fat fs1 m = fat_read_fat fsw m" for m
    by (simp add: fs1_def fat_read_fat_next_ino)
  note gw = frame_geometry[OF frw]
  have nc1: "fat_num_clusters fs1 = fat_num_clusters fs" using gw by (simp add: fs1_def)
  have inrange: "fat_read_fat fs1 m = fat_read_fat fs m"
    if "m \<noteq> 0" "fat_offset m + 1 < length (fat fs)" for m
    using rm[OF that(2) that(1)] by (simp add: rd1)
  have ff1: "fat_find_free fs1 = Some 0"
  proof -
    have "fat_find_free fs1 = fat_find_free fs"
    proof (rule fat_find_free_cong[OF nc1])
      fix k :: u32 assume "3 \<le> k" "k < fat_num_clusters fs"
      then have "fat_offset k + 1 < length (fat fs)" "k \<noteq> 0"
        using fat_in_range[OF cov] by auto
      then show "fat_read_fat fs1 k = fat_read_fat fs k" by (simp add: inrange)
    qed
    with full show ?thesis by simp
  qed
  have cs1: "fat_clustersize fs1 \<noteq> 0" using cs gw by (simp add: fs1_def)
  have loop: "touch_loop fs1 0 sz = Some (fs1, 0)" for sz
    using bits0 len0 o00 w0 ff1 cs1 by (rule touch_loop_full)
  have in1: "inodes fs1 = inodes fs" using gw by (simp add: fs1_def)
  let ?rec = "\<lparr>parent = - 1,
                 type = (if st_mode st AND s_dir = s_dir then FAT_DIR_DIRECTORY else 0),
                 cluster = 0, size_bytes = st_size st,
                 atime = st_atime st, ctime = st_ctime st, mtime = st_mtime st\<rparr>"
  let ?fs' = "fs1\<lparr>inodes := inodes fs1 @ [?rec]\<rparr>"
  have t: "fat_touch s_dir fs st = Some (next_ino fs, ?fs')"
    unfolding fat_touch_def Let_def using ff0 w0 loop in1 ino by simp
  have "fat ?fs' = fat fsw" by (simp add: fs1_def)
  moreover have "fat_read_fat ?fs' 0 = Some FAT_END"
    by (simp add: fat_read_fat_inodes rd1 r0)
  moreover have "\<forall>m. m \<noteq> 0 \<and> fat_offset m + 1 < length (fat fs) \<longrightarrow>
      fat_read_fat ?fs' m = fat_read_fat fs m"
    by (simp add: fat_read_fat_inodes inrange)
  moreover have "length (inodes ?fs') = length (inodes fs) + 1" by (simp add: in1)
  moreover have "cluster (last (inodes ?fs')) = 0" by simp
  ultimately show ?thesis using t w by blast
qed







section \<open>Proofs: the chain that \<open>fat_touch\<close> allocates\<close>

lemma sint32_uint:
  "sint (x::u32) = (if uint x < 2 ^ 31 then uint x else uint x - 2 ^ 32)"
proof -
  have b: "uint x < 2 ^ 32" using uint_lt2p[of x] by simp
  have b0: "0 \<le> uint x" by simp
  have "sint x = sint (word_of_int (uint x) :: u32)" by simp
  also have "\<dots> = (uint x + 2 ^ 31) mod 2 ^ 32 - 2 ^ 31"
    by (subst int_word_sint) simp
  finally have s: "sint x = (uint x + 2 ^ 31) mod 2 ^ 32 - 2 ^ 31" .
  show ?thesis
  proof (cases "uint x < 2 ^ 31")
    case True
    with b0 have "(uint x + 2 ^ 31) mod 2 ^ 32 = uint x + 2 ^ 31"
      by (intro mod_pos_pos_trivial) auto
    with s True show ?thesis by simp
  next
    case False
    define y where "y = uint x - 2 ^ 31"
    with False b have y: "0 \<le> y" "y < 2 ^ 32" by simp_all
    have "uint x + 2 ^ 31 = y + 2 ^ 32" by (simp add: y_def)
    then have "(uint x + 2 ^ 31) mod 2 ^ 32 = (y + 2 ^ 32) mod 2 ^ 32" by (rule arg_cong)
    also have "\<dots> = y mod 2 ^ 32" by (rule mod_add_self2)
    also from y have "\<dots> = y" by (rule mod_pos_pos_trivial)
    also have "\<dots> = uint x - 2 ^ 31" by (simp add: y_def)
    finally show ?thesis using s False by simp
  qed
qed

lemma uint_unat_less: "(uint (x::u32) < 2 ^ 31) = (unat x < 2 ^ 31)"
proof -
  have "(uint x < 2 ^ 31) = (x < 0x80000000)" by (simp add: word_less_def)
  also have "\<dots> = (unat x < 2 ^ 31)" by (simp add: word_less_nat_alt)
  finally show ?thesis .
qed

lemma sless_pos_iff: "(0 <s (x::u32)) = (x \<noteq> 0 \<and> unat x < 2 ^ 31)"
proof -
  have "(0 <s x) = (0 < sint x)" by (simp add: word_sless_alt)
  also have "\<dots> = (x \<noteq> 0 \<and> uint x < 2 ^ 31)"
    using uint_lt2p[of x] by (auto simp: sint32_uint uint_0_iff order_less_le)
  also have "\<dots> = (x \<noteq> 0 \<and> unat x < 2 ^ 31)" by (simp only: uint_unat_less)
  finally show ?thesis .
qed

lemma ceil_div_small:
  fixes s c :: nat
  assumes "0 < s" "s \<le> c"
  shows "(s + c - 1) div c = 1"
proof -
  from assms have "s + c - 1 = (s - 1) + 1 * c" by simp
  then have "(s + c - 1) div c = (s - 1) div c + 1"
    using assms by (simp only: div_mult_self1[OF less_imp_neq[OF less_le_trans[OF assms], symmetric]])
  with assms show ?thesis by simp
qed

lemma ceil_div_step:
  fixes s c :: nat
  assumes "0 < c" "c \<le> s"
  shows "(s + c - 1) div c = Suc ((s - c + c - 1) div c)"
proof -
  from assms obtain t where t: "s = Suc t" by (cases s) auto
  from assms have b: "s - c + c = s" by simp
  have "(t + c) div c = Suc (t div c)" using assms(1) div_add_self2[of c t] by simp
  then show ?thesis unfolding b by (simp add: t)
qed

lemma loop_steps_zero:
  assumes "c \<noteq> 0" and "loop_steps sz c = 0"
  shows "\<not> 0 <s sz"
proof
  assume p: "0 <s sz"
  then have nz: "0 < unat sz" by (simp add: sless_pos_iff unat_gt_0)
  from assms(1) have c: "0 < unat c" by (simp add: unat_gt_0)
  from p assms(2) have "(unat sz + unat c - 1) div unat c = 0" by (simp add: loop_steps_def)
  then have "unat sz + unat c - 1 < unat c" using c by (simp add: div_eq_0_iff)
  with nz show False by simp
qed

lemma loop_steps_step:
  assumes c: "c \<noteq> 0" and p: "0 <s sz"
  shows "loop_steps sz c = Suc (loop_steps (if c > sz then 0 else sz - c) c)"
proof -
  from p have nz: "0 < unat sz" and lt: "unat sz < 2 ^ 31"
    by (simp_all add: sless_pos_iff unat_gt_0)
  from c have c0: "0 < unat c" by (simp add: unat_gt_0)
  have l: "loop_steps sz c = (unat sz + unat c - 1) div unat c"
    using p by (simp add: loop_steps_def)
  show ?thesis
  proof (cases "c > sz")
    case True
    then have "unat sz \<le> unat c" by (simp add: word_less_nat_alt)
    with nz have "(unat sz + unat c - 1) div unat c = 1" by (rule ceil_div_small)
    with True l show ?thesis by (simp add: loop_steps_def)
  next
    case False
    then have le: "c \<le> sz" by simp
    then have le': "unat c \<le> unat sz" by (simp add: word_le_nat_alt)
    from le have u: "unat (sz - c) = unat sz - unat c" by (simp add: unat_sub)
    show ?thesis
    proof (cases "sz - c = 0")
      case True
      then have "unat sz = unat c" using u le' by (simp add: unat_eq_zero)
      with nz have "(unat sz + unat c - 1) div unat c = 1" by (intro ceil_div_small) simp_all
      with True False l show ?thesis by (simp add: loop_steps_def)
    next
      case nz': False
      from u lt have "unat (sz - c) < 2 ^ 31" by simp
      with nz' have p': "0 <s sz - c" by (simp add: sless_pos_iff)
      have "loop_steps (sz - c) c = (unat sz - unat c + unat c - 1) div unat c"
        using p' u by (simp add: loop_steps_def)
      with ceil_div_step[OF c0 le'] l False show ?thesis by simp
    qed
  qed
qed

lemma is_chain_count:
  "is_chain fs cl \<Longrightarrow> chain_count fs (hd cl) r = Some (r + of_nat (length cl))"
proof (induction fs cl arbitrary: r rule: is_chain.induct)
  case (1 fs)
  then show ?case by simp
next
  case (2 fs c)
  then have a: "c < FAT_END" "fat_read_fat fs c = Some FAT_END" by simp_all
  have "chain_count fs FAT_END (r + 1) = Some (r + 1)"
    by (subst chain_count.simps) simp
  with a show ?case by (subst chain_count.simps) simp
next
  case (3 fs c d ds)
  then have a: "c < FAT_END" "fat_read_fat fs c = Some d" "is_chain fs (d # ds)" by simp_all
  from "3.IH"[OF a(3), of "r + 1"]
  have "chain_count fs d (r + 1) = Some (r + 1 + of_nat (length (d # ds)))" by simp
  with a show ?case by (subst chain_count.simps) (simp add: add.assoc add.commute)
qed

lemma fat12_num_clusters: "fat_bits fs = 12 \<Longrightarrow> fat_num_clusters fs < 4085"
  by (simp add: fat_bits_def split: if_splits)

lemma frame_trans:
  assumes a: "fs1 = fs\<lparr>fat := fat fs1\<rparr>" and b: "fs2 = fs1\<lparr>fat := fat fs2\<rparr>"
  shows "fs2 = fs\<lparr>fat := fat fs2\<rparr>"
proof -
  have "fs1\<lparr>fat := fat fs2\<rparr> = (fs\<lparr>fat := fat fs1\<rparr>)\<lparr>fat := fat fs2\<rparr>"
    by (rule arg_cong[where f = "\<lambda>r. r\<lparr>fat := fat fs2\<rparr>", OF a])
  also have "\<dots> = fs\<lparr>fat := fat fs2\<rparr>" by simp
  finally show ?thesis using b by simp
qed

lemma find_free_in_free_set:
  assumes bits: "fat_bits fs = 12" and cov: "fat_covers fs" and ne: "free_set fs \<noteq> {}"
  shows "\<exists>f. fat_find_free fs = Some f \<and> f \<in> free_set fs"
proof -
  have rd: "\<And>k. k < fat_num_clusters fs \<Longrightarrow> \<exists>v. fat_read_fat fs k = Some v"
    using cov by (intro fat_read_fat_total) simp_all
  from ne have e: "\<exists>k. 3 \<le> k \<and> k < fat_num_clusters fs \<and> fat_read_fat fs k = Some 0"
    by (auto simp: free_set_def)
  from find_free_from_spec[OF rd, of 3] e
  show ?thesis by (auto simp: fat_find_free_def free_set_def)
qed

lemma free_set_facts:
  assumes "f \<in> free_set fs"
  shows "3 \<le> f" "f < fat_num_clusters fs" "fat_read_fat fs f = Some 0" "f \<noteq> 0"
  using assms by (auto simp: free_set_def)

lemma link_new_cluster:
  assumes bits: "fat_bits fs = 12" and cov: "fat_covers fs"
    and cur: "cur < fat_num_clusters fs" and f: "f \<in> free_set fs" and ne: "cur \<noteq> f"
  shows "\<exists>fs1 fs2. fat_write_fat fs cur f = Some fs1 \<and> fat_read_fat fs1 cur = Some f \<and>
           fat_write_fat fs1 f FAT_END = Some fs2 \<and>
           fs2 = fs\<lparr>fat := fat fs2\<rparr> \<and> length (fat fs2) = length (fat fs) \<and>
           fat_read_fat fs2 f = Some FAT_END \<and> fat_read_fat fs2 cur = Some f \<and>
           (\<forall>m. fat_offset m + 1 < length (fat fs) \<and> m \<noteq> cur \<and> m \<noteq> f \<longrightarrow>
                fat_read_fat fs2 m = fat_read_fat fs m)"
proof -
  from cov have len: "length (fat fs) \<le> 2 ^ 32" by (simp add: fat_covers_def)
  note ff = free_set_facts[OF f]
  from ff(2) fat12_num_clusters[OF bits] have f12: "f < 0x1000" by unat_arith
  have oc: "fat_offset cur + 1 < length (fat fs)" using cov cur by (rule fat_in_range)
  have "fat_offset f + 1 < length (fat fs)" using cov ff(2) by (rule fat_in_range)
  note of1 = this
  from fat12_write_frame[OF bits len oc f12]
  obtain fs1 where w1: "fat_write_fat fs cur f = Some fs1"
    and fr1: "fs1 = fs\<lparr>fat := fat fs1\<rparr>" "length (fat fs1) = length (fat fs)"
    and r1: "fat_read_fat fs1 cur = Some f"
    and o1: "\<And>m. fat_offset m + 1 < length (fat fs) \<Longrightarrow> m \<noteq> cur \<Longrightarrow>
               fat_read_fat fs1 m = fat_read_fat fs m"
    by blast
  note g1 = frame_geometry[OF fr1]
  have bits1: "fat_bits fs1 = 12" using g1 bits by simp
  have len1: "length (fat fs1) \<le> 2 ^ 32" using fr1(2) len by simp
  have of11: "fat_offset f + 1 < length (fat fs1)" using fr1(2) of1 by simp
  from fat12_write_frame[OF bits1 len1 of11 FAT_END_12]
  obtain fs2 where w2: "fat_write_fat fs1 f FAT_END = Some fs2"
    and fr2: "fs2 = fs1\<lparr>fat := fat fs2\<rparr>" "length (fat fs2) = length (fat fs1)"
    and r2: "fat_read_fat fs2 f = Some FAT_END"
    and o2: "\<And>m. fat_offset m + 1 < length (fat fs1) \<Longrightarrow> m \<noteq> f \<Longrightarrow>
               fat_read_fat fs2 m = fat_read_fat fs1 m"
    by blast
  have fr: "fs2 = fs\<lparr>fat := fat fs2\<rparr>" using fr1(1) fr2(1) by (rule frame_trans)
  have l: "length (fat fs2) = length (fat fs)" using fr1(2) fr2(2) by simp
  have rc: "fat_read_fat fs2 cur = Some f" using o2[of cur] oc fr1(2) ne r1 by simp
  have oth: "fat_read_fat fs2 m = fat_read_fat fs m"
    if "fat_offset m + 1 < length (fat fs)" "m \<noteq> cur" "m \<noteq> f" for m
    using o2[of m] o1[of m] that fr1(2) by simp
  from w1 r1 w2 fr l r2 rc oth show ?thesis by blast
qed

lemma free_set_remove:
  assumes nc: "fat_num_clusters fs2 = fat_num_clusters fs" and cov: "fat_covers fs"
    and f: "fat_read_fat fs2 f \<noteq> Some 0"
    and x: "x \<notin> free_set fs" "x \<notin> free_set fs2"
    and oth: "\<And>m. fat_offset m + 1 < length (fat fs) \<Longrightarrow> m \<noteq> x \<Longrightarrow> m \<noteq> f \<Longrightarrow>
                fat_read_fat fs2 m = fat_read_fat fs m"
  shows "free_set fs2 = free_set fs - {f}"
proof (rule set_eqI)
  fix i
  show "(i \<in> free_set fs2) = (i \<in> free_set fs - {f})"
  proof (cases "i = f \<or> i = x")
    case True
    with f x show ?thesis by (auto simp: free_set_def)
  next
    case False
    show ?thesis
    proof (cases "i < fat_num_clusters fs")
      case True
      with cov have "fat_offset i + 1 < length (fat fs)" by (rule fat_in_range)
      with oth[of i] False have "fat_read_fat fs2 i = fat_read_fat fs i" by simp
      with False nc show ?thesis by (auto simp: free_set_def)
    next
      case nin: False
      with nc show ?thesis by (auto simp: free_set_def)
    qed
  qed
qed

lemma card_free_set_remove:
  assumes "f \<in> free_set fs" and "Suc k \<le> card (free_set fs)"
  shows "k \<le> card (free_set fs - {f})"
proof -
  have "finite (free_set fs)" by simp
  with assms(1) have "card (free_set fs - {f}) = card (free_set fs) - 1" by (simp add: card_Diff_singleton)
  with assms(2) show ?thesis by simp
qed

lemma touch_loop_chain:
  assumes bits: "fat_bits fs = 12" and cov: "fat_covers fs"
    and c0: "fat_clustersize fs \<noteq> 0"
    and cur: "cur < fat_num_clusters fs" and rd: "fat_read_fat fs cur = Some FAT_END"
    and k: "loop_steps sz (fat_clustersize fs) = k"
    and enough: "k \<le> card (free_set fs)"
  shows "\<exists>fs' cur' cl. touch_loop fs cur sz = Some (fs', cur') \<and>
           fs' = fs\<lparr>fat := fat fs'\<rparr> \<and> length (fat fs') = length (fat fs) \<and>
           length cl = k \<and> distinct cl \<and> set cl \<subseteq> free_set fs \<and> is_chain fs' (cur # cl) \<and>
           (\<forall>m. fat_offset m + 1 < length (fat fs) \<and> m \<noteq> cur \<and> m \<notin> set cl \<longrightarrow>
                fat_read_fat fs' m = fat_read_fat fs m)"
  using assms
proof (induction k arbitrary: fs cur sz)
  case 0
  from loop_steps_zero[OF "0.prems"(3) "0.prems"(6)] have n: "\<not> 0 <s sz" .
  then have t: "touch_loop fs cur sz = Some (fs, cur)" by (subst touch_loop.simps) simp
  from "0.prems"(4) fat12_num_clusters[OF "0.prems"(1)] have "cur < FAT_END"
    unfolding FAT_END_def by unat_arith
  with "0.prems"(5) have "is_chain fs [cur]" by simp
  with t show ?case by (intro exI[of _ fs] exI[of _ cur] exI[of _ "[]"]) simp
next
  case (Suc k)
  note bits = Suc.prems(1) and cov = Suc.prems(2) and c0 = Suc.prems(3)
    and cur = Suc.prems(4) and rd = Suc.prems(5) and st = Suc.prems(6) and en = Suc.prems(7)
  have p: "0 <s sz"
  proof (rule ccontr)
    assume "\<not> 0 <s sz"
    then have "loop_steps sz (fat_clustersize fs) = 0" by (simp add: loop_steps_def)
    with st show False by simp
  qed
  from en have "free_set fs \<noteq> {}" by auto
  with bits cov obtain f where ff: "fat_find_free fs = Some f" and f: "f \<in> free_set fs"
    using find_free_in_free_set by blast
  note fa = free_set_facts[OF f]
  have curnf: "cur \<notin> free_set fs" using rd by (simp add: free_set_def FAT_END_def)
  with f have ne: "cur \<noteq> f" by auto
  from link_new_cluster[OF bits cov cur f ne]
  obtain fs1 fs2 where w1: "fat_write_fat fs cur f = Some fs1"
    and r1: "fat_read_fat fs1 cur = Some f"
    and w2: "fat_write_fat fs1 f FAT_END = Some fs2"
    and fr: "fs2 = fs\<lparr>fat := fat fs2\<rparr>" "length (fat fs2) = length (fat fs)"
    and r2f: "fat_read_fat fs2 f = Some FAT_END" and r2c: "fat_read_fat fs2 cur = Some f"
    and oth: "\<And>m. fat_offset m + 1 < length (fat fs) \<Longrightarrow> m \<noteq> cur \<Longrightarrow> m \<noteq> f \<Longrightarrow>
                fat_read_fat fs2 m = fat_read_fat fs m"
    by blast
  note g = frame_geometry[OF fr]
  let ?sz' = "if fat_clustersize fs2 > sz then 0 else sz - fat_clustersize fs2"
  have step: "touch_loop fs cur sz = touch_loop fs2 f ?sz'"
    using p ff w1 r1 w2 by (subst touch_loop.simps) simp
  have bits2: "fat_bits fs2 = 12" and cov2: "fat_covers fs2" and c02: "fat_clustersize fs2 \<noteq> 0"
    and f2: "f < fat_num_clusters fs2"
    using g bits cov c0 fa(2) by simp_all
  have st2: "loop_steps ?sz' (fat_clustersize fs2) = k"
    using loop_steps_step[OF c0 p] st g(4) by simp
  have fs2free: "free_set fs2 = free_set fs - {f}"
  proof (rule free_set_remove[OF g(3) cov _ curnf])
    show "fat_read_fat fs2 f \<noteq> Some 0" using r2f by (simp add: FAT_END_def)
    show "cur \<notin> free_set fs2" using r2c fa(4) by (simp add: free_set_def)
    show "\<And>m. fat_offset m + 1 < length (fat fs) \<Longrightarrow> m \<noteq> cur \<Longrightarrow> m \<noteq> f \<Longrightarrow>
                fat_read_fat fs2 m = fat_read_fat fs m" by (rule oth)
  qed
  have en2: "k \<le> card (free_set fs2)"
    unfolding fs2free using f en by (rule card_free_set_remove)
  from Suc.IH[OF bits2 cov2 c02 f2 r2f st2 en2]
  obtain fs' cur' cl where t: "touch_loop fs2 f ?sz' = Some (fs', cur')"
    and fr': "fs' = fs2\<lparr>fat := fat fs'\<rparr>" "length (fat fs') = length (fat fs2)"
    and cl: "length cl = k" "distinct cl" "set cl \<subseteq> free_set fs2" "is_chain fs' (f # cl)"
    and oth': "\<And>m. fat_offset m + 1 < length (fat fs2) \<Longrightarrow> m \<noteq> f \<Longrightarrow> m \<notin> set cl \<Longrightarrow>
                fat_read_fat fs' m = fat_read_fat fs2 m"
    by blast
  have oc: "fat_offset cur + 1 < length (fat fs)" using cov cur by (rule fat_in_range)
  have cnin: "cur \<notin> set cl" using cl(3) curnf fs2free by auto
  have fnin: "f \<notin> set cl" using cl(3) fs2free by auto
  have rc': "fat_read_fat fs' cur = Some f"
    using oth'[of cur] oc fr(2) ne cnin r2c by simp
  from cur fat12_num_clusters[OF bits] have "cur < FAT_END"
    unfolding FAT_END_def by unat_arith
  with rc' cl(4) have ch: "is_chain fs' (cur # f # cl)" by simp
  have frf: "fs' = fs\<lparr>fat := fat fs'\<rparr>" using fr(1) fr'(1) by (rule frame_trans)
  have others: "fat_read_fat fs' m = fat_read_fat fs m"
    if "fat_offset m + 1 < length (fat fs)" "m \<noteq> cur" "m \<notin> set (f # cl)" for m
    using oth'[of m] oth[of m] that fr(2) by simp
  have "touch_loop fs cur sz = Some (fs', cur')" using step t by simp
  moreover have "length (fat fs') = length (fat fs)" using fr(2) fr'(2) by simp
  moreover have "length (f # cl) = Suc k" using cl(1) by simp
  moreover have "distinct (f # cl)" using cl(2) fnin by simp
  moreover have "set (f # cl) \<subseteq> free_set fs" using cl(3) f fs2free by auto
  ultimately show ?case using frf ch others
    by (intro exI[of _ fs'] exI[of _ cur'] exI[of _ "f # cl"]) blast
qed

lemma unat_ucast8: "unat (ucast (x::u8) :: u32) = unat x"
proof -
  have b: "unat x < 256" using unsigned_less[of x, where 'a = nat] by simp
  have "unat (ucast x :: u32) = take_bit 32 (unat x)"
    by (simp add: unsigned_ucast_eq)
  also from b have "\<dots> = unat x" by (simp add: take_bit_nat_eq_self)
  finally show ?thesis .
qed

lemma unat_sectors:
  "unat (512 * ucast (x::u8) :: u32) = 512 * unat x"
proof -
  have b: "unat x < 256" using unsigned_less[of x, where 'a = nat] by simp
  have "unat (512 * ucast x :: u32) = (512 * unat x) mod 2 ^ 32"
    by (simp add: unat_word_ariths unat_ucast8)
  also from b have "\<dots> = 512 * unat x" by simp
  finally show ?thesis .
qed

lemma card_below:
  fixes A :: "u32 set"
  assumes "\<And>i. i \<in> A \<Longrightarrow> i < n"
  shows "card A \<le> unat n"
proof -
  have "inj_on unat A" by (auto simp: inj_on_def word_unat_eq_iff)
  then have "card A = card (unat ` A)" by (simp add: card_image)
  also have "\<dots> \<le> card {..< unat n}"
    using assms by (intro card_mono) (auto simp: word_less_nat_alt)
  finally show ?thesis by simp
qed

lemma unat_sub_wrap:
  fixes a b :: u32
  assumes "a < b"
  shows "unat (a - b) = unat a + 2 ^ 32 - unat b"
  using assms by (simp add: unat_sub_if_size word_less_nat_alt word_size)

lemma ceil_mult_ge:
  fixes s c :: nat
  assumes "0 < c"
  shows "s \<le> ((s + c - 1) div c) * c"
proof -
  have "s + c - 1 < ((s + c - 1) div c) * c + c"
    using assms by (metis add.commute dividend_less_div_times mult.commute)
  with assms show ?thesis by simp
qed

lemma clusters_needed_steps:
  assumes c0: "c \<noteq> 0" and c31: "unat c \<le> 2 ^ 31" and s31: "unat s < 2 ^ 31 + unat c"
  shows "clusters_needed s c = Suc (loop_steps (s - c) c)"
proof -
  from c0 have cp: "0 < unat c" by (simp add: unat_gt_0)
  consider (lt) "s < c" | (eq) "s = c" | (gt) "c < s" by (metis linorder_less_linear)
  then show ?thesis
  proof cases
    case lt
    then have u: "unat (s - c) = unat s + 2 ^ 32 - unat c" by (rule unat_sub_wrap)
    from lt have l: "unat s < unat c" by (simp add: word_less_nat_alt)
    with u c31 have "\<not> unat (s - c) < 2 ^ 31" by simp
    then have n: "\<not> 0 <s s - c" by (simp add: sless_pos_iff)
    have "(unat s + unat c - 1) div unat c \<le> 1"
    proof (cases "unat s = 0")
      case True
      with cp show ?thesis by simp
    next
      case False
      with l have "(unat s + unat c - 1) div unat c = 1" by (intro ceil_div_small) simp_all
      then show ?thesis by simp
    qed
    with n show ?thesis by (simp add: clusters_needed_def loop_steps_def max_def)
  next
    case eq
    have "(unat c + unat c - 1) div unat c = 1" using cp by (intro ceil_div_small) simp_all
    with eq show ?thesis by (simp add: clusters_needed_def loop_steps_def)
  next
    case gt
    then have le: "unat c \<le> unat s" by (simp add: word_less_nat_alt)
    from gt have ne: "s - c \<noteq> 0" by auto
    from gt have u: "unat (s - c) = unat s - unat c" by (simp add: unat_sub)
    with s31 have "unat (s - c) < 2 ^ 31" by simp
    with ne have p: "0 <s s - c" by (simp add: sless_pos_iff)
    have "loop_steps (s - c) c = (unat s - unat c + unat c - 1) div unat c"
      using p u by (simp add: loop_steps_def)
    with ceil_div_step[OF cp le] show ?thesis by (simp add: clusters_needed_def)
  qed
qed

lemma is_chain_cong:
  assumes "\<And>m. fat_read_fat fs' m = fat_read_fat fs m"
  shows "is_chain fs' cl = is_chain fs cl"
  using assms by (induction fs cl rule: is_chain.induct) simp_all

lemma free_set_next_ino: "free_set (fs\<lparr>next_ino := x\<rparr>) = free_set fs"
  by (simp add: free_set_def fat_read_fat_next_ino)

lemma fat_touch_chain:
  assumes bits: "fat_bits fs = 12" and cov: "fat_covers fs" and ino: "inodes fs \<noteq> []"
    and c0: "fat_clustersize fs \<noteq> 0" and c31: "unat (fat_clustersize fs) \<le> 2 ^ 31"
    and s31: "unat (st_size st) < 2 ^ 31 + unat (fat_clustersize fs)"
    and enough: "clusters_needed (st_size st) (fat_clustersize fs) \<le> card (free_set fs)"
  shows "\<exists>fs' cl. fat_touch s_dir fs st = Some (next_ino fs, fs') \<and>
           length (inodes fs') = length (inodes fs) + 1 \<and>
           size_bytes (last (inodes fs')) = st_size st \<and>
           cl \<noteq> [] \<and> hd cl = cluster (last (inodes fs')) \<and>
           length cl = clusters_needed (st_size st) (fat_clustersize fs) \<and>
           distinct cl \<and> set cl \<subseteq> free_set fs \<and> is_chain fs' cl \<and>
           chain_count fs' (cluster (last (inodes fs'))) 0 = Some (of_nat (length cl)) \<and>
           (\<forall>m. fat_offset m + 1 < length (fat fs) \<and> m \<notin> set cl \<longrightarrow>
                fat_read_fat fs' m = fat_read_fat fs m)"
proof -
  let ?fs0 = "fs\<lparr>next_ino := next_ino fs + 1\<rparr>"
  let ?c = "fat_clustersize fs"
  define k where "k = loop_steps (st_size st - ?c) ?c"
  have need: "clusters_needed (st_size st) ?c = Suc k"
    unfolding k_def using c0 c31 s31 by (rule clusters_needed_steps)
  from cov have len: "length (fat fs) \<le> 2 ^ 32" by (simp add: fat_covers_def)
  have "fat_bits ?fs0 = fat_bits fs" by (simp add: fat_bits_def)
  with bits have bits0: "fat_bits ?fs0 = 12" by simp
  have cov0: "fat_covers ?fs0" using cov by (simp add: fat_covers_def)
  have fr0: "free_set ?fs0 = free_set fs" by (rule free_set_next_ino)
  from enough need have "free_set fs \<noteq> {}" by auto
  with fr0 have "free_set ?fs0 \<noteq> {}" by simp
  with bits0 cov0 obtain f where ff: "fat_find_free ?fs0 = Some f" and f0: "f \<in> free_set ?fs0"
    using find_free_in_free_set by blast
  from f0 fr0 have f: "f \<in> free_set fs" by simp
  note fa = free_set_facts[OF f]
  have len0: "length (fat ?fs0) \<le> 2 ^ 32" using len by simp
  have "fat_offset f + 1 < length (fat fs)" using cov fa(2) by (rule fat_in_range)
  then have of0: "fat_offset f + 1 < length (fat ?fs0)" by simp
  from fat12_write_frame[OF bits0 len0 of0 FAT_END_12]
  obtain fs1 where w: "fat_write_fat ?fs0 f FAT_END = Some fs1"
    and fr1: "fs1 = ?fs0\<lparr>fat := fat fs1\<rparr>" "length (fat fs1) = length (fat ?fs0)"
    and r1: "fat_read_fat fs1 f = Some FAT_END"
    and o1: "\<And>m. fat_offset m + 1 < length (fat ?fs0) \<Longrightarrow> m \<noteq> f \<Longrightarrow>
               fat_read_fat fs1 m = fat_read_fat ?fs0 m"
    by blast
  note g1 = frame_geometry[OF fr1]
  have bits1: "fat_bits fs1 = 12" using g1 bits0 by simp
  have cov1: "fat_covers fs1" using g1 cov0 by simp
  have c1: "fat_clustersize fs1 = ?c" using g1 by simp
  have c01: "fat_clustersize fs1 \<noteq> 0" using c1 c0 by simp
  have f1: "f < fat_num_clusters fs1" using g1 fa(2) by simp
  have free1: "free_set fs1 = free_set ?fs0 - {f}"
  proof (rule free_set_remove[OF g1(3) cov0, where x = 0])
    show "fat_read_fat fs1 f \<noteq> Some 0" using r1 by (simp add: FAT_END_def)
    show "0 \<notin> free_set ?fs0" "0 \<notin> free_set fs1" by (simp_all add: free_set_def)
    show "\<And>m. fat_offset m + 1 < length (fat ?fs0) \<Longrightarrow> m \<noteq> 0 \<Longrightarrow> m \<noteq> f \<Longrightarrow>
                fat_read_fat fs1 m = fat_read_fat ?fs0 m" by (rule o1)
  qed
  have st1: "loop_steps (st_size st - ?c) (fat_clustersize fs1) = k" by (simp add: k_def c1)
  have en1: "k \<le> card (free_set fs1)"
    unfolding free1 fr0 using f enough need by (intro card_free_set_remove) simp_all
  from touch_loop_chain[OF bits1 cov1 c01 f1 r1 st1 en1]
  obtain fs2 cur' cl where t: "touch_loop fs1 f (st_size st - ?c) = Some (fs2, cur')"
    and fr2: "fs2 = fs1\<lparr>fat := fat fs2\<rparr>" "length (fat fs2) = length (fat fs1)"
    and cl: "length cl = k" "distinct cl" "set cl \<subseteq> free_set fs1" "is_chain fs2 (f # cl)"
    and o2: "\<And>m. fat_offset m + 1 < length (fat fs1) \<Longrightarrow> m \<noteq> f \<Longrightarrow> m \<notin> set cl \<Longrightarrow>
                fat_read_fat fs2 m = fat_read_fat fs1 m"
    by blast
  note g2 = frame_geometry[OF fr2]
  have in2: "inodes fs2 = inodes fs" using g2 g1 by simp
  let ?rec = "\<lparr>parent = - 1,
                 type = (if st_mode st AND s_dir = s_dir then FAT_DIR_DIRECTORY else 0),
                 cluster = f, size_bytes = st_size st,
                 atime = st_atime st, ctime = st_ctime st, mtime = st_mtime st\<rparr>"
  let ?fs' = "fs2\<lparr>inodes := inodes fs2 @ [?rec]\<rparr>"
  have touch: "fat_touch s_dir fs st = Some (next_ino fs, ?fs')"
    unfolding fat_touch_def Let_def using ff w t in2 ino by simp
  have rd': "fat_read_fat ?fs' m = fat_read_fat fs2 m" for m by (rule fat_read_fat_inodes)
  have ch: "is_chain ?fs' (f # cl)" using cl(4) is_chain_cong[of ?fs' fs2, OF rd'] by simp
  have cc: "chain_count ?fs' f 0 = Some (of_nat (length (f # cl)))"
    using is_chain_count[OF ch, of 0] by simp
  have fnin: "f \<notin> set cl" using cl(3) free1 by auto
  have sub: "set (f # cl) \<subseteq> free_set fs" using cl(3) free1 fr0 f by auto
  have others: "fat_read_fat ?fs' m = fat_read_fat fs m"
    if "fat_offset m + 1 < length (fat fs)" "m \<notin> set (f # cl)" for m
  proof -
    have "fat_read_fat ?fs' m = fat_read_fat fs2 m" by (rule rd')
    also have "\<dots> = fat_read_fat fs1 m" using o2[of m] that fr1(2) by simp
    also have "\<dots> = fat_read_fat ?fs0 m" using o1[of m] that by simp
    also have "\<dots> = fat_read_fat fs m" by (rule fat_read_fat_next_ino)
    finally show ?thesis .
  qed
  have "length (inodes ?fs') = length (inodes fs) + 1" by (simp add: in2)
  moreover have "size_bytes (last (inodes ?fs')) = st_size st" by simp
  moreover have "hd (f # cl) = cluster (last (inodes ?fs'))" by simp
  moreover have "length (f # cl) = clusters_needed (st_size st) ?c" using need cl(1) by simp
  moreover have "distinct (f # cl)" using cl(2) fnin by simp
  moreover have "chain_count ?fs' (cluster (last (inodes ?fs'))) 0 = Some (of_nat (length (f # cl)))"
    using cc by simp
  moreover have "f # cl \<noteq> []" by simp
  ultimately show ?thesis using touch sub ch others
    by (intro exI[of _ ?fs'] exI[of _ "f # cl"]) blast
qed

lemma clusters_needed_ge:
  assumes "c \<noteq> 0"
  shows "unat s \<le> clusters_needed s c * unat c"
proof -
  from assms have cp: "0 < unat c" by (simp add: unat_gt_0)
  have "unat s \<le> ((unat s + unat c - 1) div unat c) * unat c" using cp by (rule ceil_mult_ge)
  also have "\<dots> \<le> clusters_needed s c * unat c" by (simp add: clusters_needed_def)
  finally show ?thesis .
qed

lemma card_free_set: "fat_bits fs = 12 \<Longrightarrow> card (free_set fs) < 4085"
proof -
  assume b: "fat_bits fs = 12"
  have "card (free_set fs) \<le> unat (fat_num_clusters fs)"
    by (rule card_below) (simp add: free_set_def)
  also from fat12_num_clusters[OF b] have "\<dots> < 4085" by (simp add: word_less_nat_alt)
  finally show ?thesis .
qed

text \<open>
  Claim C4, with the free clusters counted where \<open>fat_find_free\<close> looks for them. On a
  FAT12 volume whose clusters are \<open>sectors_per_cluster\<close> sectors of 512 bytes, with at least
  \<open>max 1 (ceil (S / cluster size))\<close> free entries among the indices from 3 to
  \<open>fat_num_clusters - 1\<close>, \<open>fat_touch\<close> with the size \<open>S\<close> returns the next handle and
  appends an inode record whose first cluster heads a chain of exactly that many clusters:
  the clusters of the chain are distinct and were free, each entry of the chain holds the
  next cluster and the last one holds \<open>FAT_END\<close>, the loop of \<open>fat_clustercount\<close> counts
  that many clusters from the first cluster, and every other entry of the FAT reads as
  before.
\<close>

theorem touch_allocates_chain:
  assumes bits: "fat_bits fs = 12" and cov: "fat_covers fs" and ino: "inodes fs \<noteq> []"
    and geom: "fat_clustersize fs = 512 * ucast (sectors_per_cluster fs)"
    and spc: "sectors_per_cluster fs \<noteq> 0"
    and enough: "clusters_needed (st_size st) (fat_clustersize fs) \<le> card (free_set fs)"
  shows "\<exists>fs' cl. fat_touch s_dir fs st = Some (next_ino fs, fs') \<and>
           length (inodes fs') = length (inodes fs) + 1 \<and>
           size_bytes (last (inodes fs')) = st_size st \<and>
           cl \<noteq> [] \<and> hd cl = cluster (last (inodes fs')) \<and>
           length cl = clusters_needed (st_size st) (fat_clustersize fs) \<and>
           distinct cl \<and> set cl \<subseteq> free_set fs \<and> is_chain fs' cl \<and>
           chain_count fs' (cluster (last (inodes fs'))) 0 = Some (of_nat (length cl)) \<and>
           (\<forall>m. fat_offset m + 1 < length (fat fs) \<and> m \<notin> set cl \<longrightarrow>
                fat_read_fat fs' m = fat_read_fat fs m)"
proof -
  let ?c = "fat_clustersize fs"
  have b: "unat (sectors_per_cluster fs) < 256"
    using unsigned_less[of "sectors_per_cluster fs", where 'a = nat] by simp
  from spc have p: "0 < unat (sectors_per_cluster fs)" by (simp add: unat_gt_0)
  have uc: "unat ?c = 512 * unat (sectors_per_cluster fs)" by (simp only: geom unat_sectors)
  from uc p have "0 < unat ?c" by simp
  then have c0: "?c \<noteq> 0" by (simp add: unat_gt_0)
  from uc b have cb: "unat ?c \<le> 130560" by simp
  then have c31: "unat ?c \<le> 2 ^ 31" by simp
  have "unat (st_size st) \<le> clusters_needed (st_size st) ?c * unat ?c"
    using c0 by (rule clusters_needed_ge)
  also have "\<dots> \<le> card (free_set fs) * unat ?c" using enough by (rule mult_le_mono1)
  also have "\<dots> \<le> 4085 * 130560"
    using card_free_set[OF bits] cb by (intro mult_le_mono) simp_all
  finally have "unat (st_size st) < 2 ^ 31" by simp
  then have s31: "unat (st_size st) < 2 ^ 31 + unat ?c" by simp
  from bits cov ino c0 c31 s31 enough show ?thesis by (rule fat_touch_chain)
qed

lemma example_free: "5 \<in> free_set example_fs" "6 \<in> free_set example_fs"
  by (simp_all add: free_set_def example_fs_def fat_read_fat_def fat_bits_def load16_def Let_def)

lemma example_card_free: "2 \<le> card (free_set example_fs)"
proof -
  have "card {5, 6 :: u32} \<le> card (free_set example_fs)"
    using example_free by (intro card_mono) simp_all
  then show ?thesis by simp
qed

lemma example_touch_5000:
  "fat_touch 0x4000 example_fs stat_5000 =
     Some (2, example_fs\<lparr>fat := [0xF0, 0xFF, 0xFF, 0x00, 0x40, 0x00, 0xF8, 0x6F,
                                  0x00, 0xF8, 0x0F, 0x00, 0x00, 0x00, 0x00, 0x00],
                     inodes := inodes example_fs @
                       [\<lparr>parent = - 1, type = 0, cluster = 5, size_bytes = 5000,
                         atime = 0, ctime = 0, mtime = 0\<rparr>],
                     next_ino := 3\<rparr>)"
proof -
  let ?f1 = "[0xF0, 0xFF, 0xFF, 0x00, 0x40, 0x00, 0xF8, 0x8F,
              0xFF, 0x00, 0x00, 0x00, 0x00, 0x00, 0x00, 0x00 :: u8]"
  let ?f2 = "[0xF0, 0xFF, 0xFF, 0x00, 0x40, 0x00, 0xF8, 0x6F,
              0x00, 0x00, 0x00, 0x00, 0x00, 0x00, 0x00, 0x00 :: u8]"
  let ?f3 = "[0xF0, 0xFF, 0xFF, 0x00, 0x40, 0x00, 0xF8, 0x6F,
              0x00, 0xF8, 0x0F, 0x00, 0x00, 0x00, 0x00, 0x00 :: u8]"
  let ?e = "example_fs\<lparr>next_ino := 3\<rparr>"
  have ff0: "fat_find_free ?e = Some 5"
    unfolding fat_find_free_def
    by (simp add: find_free_from.simps example_fs_def fat_read_fat_def fat_bits_def
       load16_def Let_def)
  have w0: "fat_write_fat ?e 5 FAT_END = Some (?e\<lparr>fat := ?f1\<rparr>)"
    by (simp add: example_fs_def fat_write_fat_def fat_bits_def load16_def store16_def
         FAT_END_def Let_def)
  have ff1: "fat_find_free (?e\<lparr>fat := ?f1\<rparr>) = Some 6"
    unfolding fat_find_free_def
    by (simp add: find_free_from.simps example_fs_def fat_read_fat_def fat_bits_def
       load16_def Let_def)
  have w1: "fat_write_fat (?e\<lparr>fat := ?f1\<rparr>) 5 6 = Some (?e\<lparr>fat := ?f2\<rparr>)"
    by (simp add: example_fs_def fat_write_fat_def fat_bits_def load16_def store16_def Let_def)
  have r1: "fat_read_fat (?e\<lparr>fat := ?f2\<rparr>) 5 = Some 6"
    by (simp add: example_fs_def fat_read_fat_def fat_bits_def load16_def Let_def)
  have w2: "fat_write_fat (?e\<lparr>fat := ?f2\<rparr>) 6 FAT_END = Some (?e\<lparr>fat := ?f3\<rparr>)"
    by (simp add: example_fs_def fat_write_fat_def fat_bits_def load16_def store16_def
         FAT_END_def Let_def)
  have cs: "fat_clustersize (?e\<lparr>fat := ?f3\<rparr>) = 4096" "fat_clustersize example_fs = 4096"
    "next_ino example_fs = 2" "inodes example_fs \<noteq> []"
    by (simp_all add: example_fs_def)
  have p: "0 <s (904 :: u32)" "\<not> 0 <s (0 :: u32)" "(904 :: u32) < 4096"
    by (simp_all add: word_sless_alt)
  have l2: "touch_loop (?e\<lparr>fat := ?f3\<rparr>) 6 0 = Some (?e\<lparr>fat := ?f3\<rparr>, 6)"
    using p(2) by (subst touch_loop.simps) simp
  have l1: "touch_loop (?e\<lparr>fat := ?f1\<rparr>) 5 904 = Some (?e\<lparr>fat := ?f3\<rparr>, 6)"
    by (subst touch_loop.simps) (simp add: p ff1 w1 r1 w2 cs l2)
  show ?thesis
    unfolding fat_touch_def Let_def
    using ff0 w0 l1 cs by (simp add: stat_5000_def)
qed

lemma example_geometry:
  "fat_bits example_fs = 12" "fat_covers example_fs" "inodes example_fs \<noteq> []"
  "fat_clustersize example_fs = 512 * ucast (sectors_per_cluster example_fs)"
  "sectors_per_cluster example_fs \<noteq> 0" "fat_clustersize example_fs = 4096"
  "next_ino example_fs = 2"
  by (simp_all add: example_fs_def fat_bits_def fat_covers_def fat_offset_def)

lemma needed_5000: "clusters_needed 5000 4096 = 2" "st_size stat_5000 = 5000"
  by (simp_all add: clusters_needed_def stat_5000_def)

text \<open>
  The example of the claim: 5000 bytes with clusters of 4096 bytes on \<open>example_fs\<close>, where
  the clusters 5, 6 and 7 are free, give the chain 5, 6.
\<close>

theorem touch_allocates_chain_witness:
  "fat_bits example_fs = 12 \<and> fat_covers example_fs \<and> inodes example_fs \<noteq> [] \<and>
   fat_clustersize example_fs = 512 * ucast (sectors_per_cluster example_fs) \<and>
   sectors_per_cluster example_fs \<noteq> 0 \<and>
   clusters_needed (st_size stat_5000) (fat_clustersize example_fs) = 2 \<and>
   2 \<le> card (free_set example_fs) \<and>
   (\<exists>fs' cl. fat_touch 0x4000 example_fs stat_5000 = Some (2, fs') \<and>
      fat fs' = [0xF0, 0xFF, 0xFF, 0x00, 0x40, 0x00, 0xF8, 0x6F,
                 0x00, 0xF8, 0x0F, 0x00, 0x00, 0x00, 0x00, 0x00] \<and>
      cluster (last (inodes fs')) = 5 \<and> hd cl = 5 \<and> length cl = 2 \<and> is_chain fs' cl \<and>
      chain_count fs' 5 0 = Some 2)"
proof -
  note g = example_geometry
  have n: "clusters_needed (st_size stat_5000) (fat_clustersize example_fs) = 2"
    by (simp add: needed_5000 g(6))
  have en: "clusters_needed (st_size stat_5000) (fat_clustersize example_fs)
              \<le> card (free_set example_fs)"
    using example_card_free by (simp add: n)
  note t = touch_allocates_chain [OF g(1) g(2) g(3) g(4) g(5) en, of "0x4000",
      unfolded n g(7) example_touch_5000]
  then obtain fs' cl where a: "Some (2, example_fs\<lparr>fat := [0xF0, 0xFF, 0xFF, 0x00, 0x40, 0x00, 0xF8, 0x6F,
                                  0x00, 0xF8, 0x0F, 0x00, 0x00, 0x00, 0x00, 0x00],
                     inodes := inodes example_fs @
                       [\<lparr>parent = - 1, type = 0, cluster = 5, size_bytes = 5000,
                         atime = 0, ctime = 0, mtime = 0\<rparr>],
                     next_ino := 3\<rparr>) = Some (2::u32, fs')"
    and b: "hd cl = cluster (last (inodes fs'))" "length cl = 2" "is_chain fs' cl"
       "chain_count fs' (cluster (last (inodes fs'))) 0 = Some (of_nat (length cl))"
    by blast
  from a have c: "cluster (last (inodes fs')) = 5"
    "fat fs' = [0xF0, 0xFF, 0xFF, 0x00, 0x40, 0x00, 0xF8, 0x6F,
                 0x00, 0xF8, 0x0F, 0x00, 0x00, 0x00, 0x00, 0x00]"
    and d: "fat_touch 0x4000 example_fs stat_5000 = Some (2, fs')"
    by (auto simp: example_touch_5000)
  from b c have "hd cl = 5" "chain_count fs' 5 0 = Some 2" by simp_all
  with b(2,3) c d n g example_card_free show ?thesis by blast
qed

lemma scan_end_find_free: "fat_find_free scan_end_fs = Some 0"
  unfolding fat_find_free_def
  by (simp add: find_free_from.simps scan_end_fs_def example_fs_def fat_read_fat_def fat_bits_def
        load16_def Let_def)

lemma scan_end_geometry:
  "fat_bits scan_end_fs = 12" "fat_covers scan_end_fs" "1 < length (fat scan_end_fs)"
  "fat_clustersize scan_end_fs \<noteq> 0" "inodes scan_end_fs \<noteq> []" "next_ino scan_end_fs = 2"
  "fat_clustersize scan_end_fs = 4096"
  by (simp_all add: scan_end_fs_def example_fs_def fat_bits_def fat_covers_def fat_offset_def)

lemma scan_end_free:
  "fat_read_fat scan_end_fs 2 = Some 0" "fat_read_fat scan_end_fs 8 = Some 0"
  "fat_read_fat scan_end_fs 9 = Some 0"
  "fat_offset 2 + 1 < length (fat scan_end_fs)" "fat_offset 8 + 1 < length (fat scan_end_fs)"
  "fat_offset 9 + 1 < length (fat scan_end_fs)"
  by (simp_all add: scan_end_fs_def example_fs_def fat_read_fat_def fat_bits_def load16_def
        fat_offset_def Let_def)

text \<open>
  On \<open>scan_end_fs\<close> the clusters 2, 8 and 9 are free, but no index from 3 to 7 is:
  \<open>fat_touch\<close> for 5000 bytes allocates none of them. The new inode has the first cluster
  0, from which \<open>fat_clustercount\<close> counts one cluster, and the entries 2, 8 and 9 still
  read 0.
\<close>

theorem touch_allocates_chain_counterexample:
  "fat_read_fat scan_end_fs 2 = Some 0 \<and> fat_read_fat scan_end_fs 8 = Some 0 \<and>
   fat_read_fat scan_end_fs 9 = Some 0 \<and>
   clusters_needed (st_size stat_5000) (fat_clustersize scan_end_fs) = 2 \<and>
   (\<exists>fs'. fat_touch 0x4000 scan_end_fs stat_5000 = Some (2, fs') \<and>
      cluster (last (inodes fs')) = 0 \<and> chain_count fs' 0 0 = Some 1 \<and>
      fat_read_fat fs' 2 = Some 0 \<and> fat_read_fat fs' 8 = Some 0 \<and>
      fat_read_fat fs' 9 = Some 0)"
proof -
  note g = scan_end_geometry
  from fat_touch_full[OF g(1) g(2) g(3) scan_end_find_free g(4) g(5), of "0x4000" stat_5000,
      unfolded g(6)]
  obtain fs' where t: "fat_touch 0x4000 scan_end_fs stat_5000 = Some (2, fs')"
    and r0: "fat_read_fat fs' 0 = Some FAT_END"
    and oth: "\<forall>m. m \<noteq> 0 \<and> fat_offset m + 1 < length (fat scan_end_fs) \<longrightarrow>
                fat_read_fat fs' m = fat_read_fat scan_end_fs m"
    and c: "cluster (last (inodes fs')) = 0"
    by blast
  have "chain_count fs' FAT_END 1 = Some 1" by (subst chain_count.simps) simp
  with r0 have cc: "chain_count fs' 0 0 = Some 1"
    by (subst chain_count.simps) (simp add: FAT_END_def)
  from oth scan_end_free have "fat_read_fat fs' 2 = Some 0" "fat_read_fat fs' 8 = Some 0"
    "fat_read_fat fs' 9 = Some 0" by auto
  with t c cc scan_end_free(1,2,3) show ?thesis
    by (auto simp: needed_5000 g(7))
qed

section \<open>Proofs: long names\<close>

lemma fold_fill_length [simp]:
  "length (fold (\<lambda>j b. b[f j := g j b]) js b) = length b"
  by (induction js arbitrary: b) simp_all

lemma fold_const_fill_nth:
  "k < length b \<Longrightarrow>
   fold (\<lambda>j b. b[j := c]) [m ..< n] b ! k = (if m \<le> k \<and> k < n then c else b ! k)"
proof (induction n)
  case 0
  then show ?case by simp
next
  case (Suc n)
  show ?case
  proof (cases "m \<le> n")
    case True
    then have "[m ..< Suc n] = [m ..< n] @ [n]" by simp
    with Suc show ?thesis by (cases "k = n") auto
  next
    case False
    then show ?thesis by auto
  qed
qed

lemma fold_name_fill_nth:
  "k < length b \<Longrightarrow>
   fold (\<lambda>i b. b[2 * i := name ! i]) [0 ..< n] b ! k =
     (if even k \<and> k div 2 < n then name ! (k div 2) else b ! k)"
proof (induction n)
  case 0
  then show ?case by simp
next
  case (Suc n)
  have "[0 ..< Suc n] = [0 ..< n] @ [n]" by simp
  with Suc show ?case
    by (cases "k = 2 * n") auto
qed

lemma utf16_buffer_length [simp]: "length (utf16_buffer name e) = e * 26"
  by (simp add: utf16_buffer_def Let_def)

lemma utf16_buffer_nth:
  assumes "k < e * 26"
  shows "utf16_buffer name e ! k =
     (if 2 * length name + 2 \<le> k then 0xFF
      else if even k \<and> k div 2 < length name then name ! (k div 2) else 0)"
  using assms
  by (simp add: utf16_buffer_def Let_def fold_const_fill_nth fold_name_fill_nth)

lemma utf16_buffer_even:
  assumes "i < e * 13"
  shows "utf16_buffer name e ! (2 * i) =
     (if i < length name then name ! i else if i = length name then 0 else 0xFF)"
  using assms by (auto simp: utf16_buffer_nth)

lemma fold_slots_length [simp]:
  "length (fold (\<lambda>t l. l[h t := g t l]) ts l) = length l"
  by (induction ts arbitrary: l) simp_all

lemma fold_slots_nth:
  assumes "n \<le> E" and "E \<le> length l" and "i < length l"
  shows "fold (\<lambda>t l. l[E - 1 - t := g t (l ! (E - 1 - t))]) [0 ..< n] l ! i =
     (if E - n \<le> i \<and> i < E then g (E - 1 - i) (l ! i) else l ! i)"
  using assms
proof (induction n arbitrary: i)
  case 0
  then show ?case by auto
next
  case (Suc n)
  let ?F = "fold (\<lambda>t l. l[E - 1 - t := g t (l ! (E - 1 - t))]) [0 ..< n] l"
  have len: "length ?F = length l" by simp
  have up: "[0 ..< Suc n] = [0 ..< n] @ [n]" by simp
  have ih: "\<And>j. j < length l \<Longrightarrow>
      ?F ! j = (if E - n \<le> j \<and> j < E then g (E - 1 - j) (l ! j) else l ! j)"
    using Suc.IH Suc.prems by simp
  have old: "?F ! (E - 1 - n) = l ! (E - 1 - n)"
    using Suc.prems by (subst ih) auto
  show ?case
  proof (cases "i = E - 1 - n")
    case True
    with Suc.prems old len show ?thesis
      by (auto simp: up)
  next
    case False
    with Suc.prems len ih[of i] show ?thesis
      by (auto simp: up)
  qed
qed

lemma ln_write_fields:
  assumes "length n1 = 10"
  shows "ln_num (ln_write e num n1 n2 n3 ck) = num"
    and "ln_attrib (ln_write e num n1 n2 n3 ck) = FAT_DIR_LONGNAME"
    and "ln_entry_type (ln_write e num n1 n2 n3 ck) = 0"
    and "ln_checksum (ln_write e num n1 n2 n3 ck) = ck"
  using assms
  by (simp_all add: ln_write_def ln_num_def ln_attrib_def ln_entry_type_def ln_checksum_def nth_append)

lemma ln_write_chars:
  assumes "length n1 = 10" and "length n2 = 12" and "length n3 = 4" and "length e = 32"
  shows "ln_chars (ln_write e num n1 n2 n3 ck) =
     [n1 ! 0, n1 ! 2, n1 ! 4, n1 ! 6, n1 ! 8,
      n2 ! 0, n2 ! 2, n2 ! 4, n2 ! 6, n2 ! 8, n2 ! 10, n3 ! 0, n3 ! 2]"
  using assms
  by (simp add: ln_write_def ln_chars_def nth_append)

lemma ln_write_length:
  assumes "length n1 = 10" and "length n2 = 12" and "length n3 = 4" and "length e = 32"
  shows "length (ln_write e num n1 n2 n3 ck) = 32"
  using assms by (simp add: ln_write_def)

lemma fat_write_longname_nth:
  assumes le: "longname_entries name \<le> length ln" and pos: "0 < longname_entries name"
    and i: "i < length ln"
  shows "\<exists>ln2. fat_write_longname ln name = Some (ln2, longname_entries name) \<and>
     length ln2 = length ln \<and>
     ln2 ! i =
       (if i < longname_entries name
        then (if i = 0 then set_last_flag else id)
               (longname_slot (ln ! i) (longname_entries name - 1 - i)
                  (utf16_buffer name (longname_entries name))
                  (fat_checksum (fat_make_shortname name)))
        else ln ! i)"
proof -
  let ?E = "longname_entries name"
  let ?g = "\<lambda>t e. longname_slot e t (utf16_buffer name ?E) (fat_checksum (fat_make_shortname name))"
  let ?ln1 = "fold (\<lambda>t l. l[?E - 1 - t := ?g t (l ! (?E - 1 - t))]) [0 ..< ?E] ln"
  let ?ln2 = "?ln1[0 := set_last_flag (?ln1 ! 0)]"
  from le pos have ne: "ln \<noteq> []" and l0: "0 < length ln" by auto
  have w: "fat_write_longname ln name = Some (?ln2, ?E)"
    using le ne by (simp add: fat_write_longname_def Let_def)
  have n1: "?ln1 ! j = (if j < ?E then ?g (?E - 1 - j) (ln ! j) else ln ! j)" if "j < length ln" for j
    using le that by (subst fold_slots_nth) auto
  have len: "length ?ln2 = length ln" by simp
  have "?ln2 ! i = (if i < ?E then (if i = 0 then set_last_flag else id) (?g (?E - 1 - i) (ln ! i)) else ln ! i)"
  proof (cases "i = 0")
    case True
    with l0 n1[OF l0] pos show ?thesis by simp
  next
    case False
    with n1[OF i] show ?thesis by simp
  qed
  with w len show ?thesis by blast
qed

lemma longname_slot_fields:
  assumes "26 * t + 26 \<le> length buffer"
  shows "ln_num (longname_slot e t buffer ck) = of_nat (t + 1)"
    and "ln_attrib (longname_slot e t buffer ck) = FAT_DIR_LONGNAME"
    and "ln_entry_type (longname_slot e t buffer ck) = 0"
    and "ln_checksum (longname_slot e t buffer ck) = ck"
    and "12 < length (longname_slot e t buffer ck)"
proof -
  have l: "length (take 10 (drop (26 * t) buffer)) = 10" using assms by simp
  show "ln_num (longname_slot e t buffer ck) = of_nat (t + 1)"
    and "ln_attrib (longname_slot e t buffer ck) = FAT_DIR_LONGNAME"
    and "ln_entry_type (longname_slot e t buffer ck) = 0"
    and "ln_checksum (longname_slot e t buffer ck) = ck"
    unfolding longname_slot_def by (rule ln_write_fields[OF l])+
  show "12 < length (longname_slot e t buffer ck)"
    unfolding longname_slot_def ln_write_def using l by simp
qed

lemma longname_slot_chars:
  assumes "26 * t + 26 \<le> length buffer" and "length e = 32"
  shows "ln_chars (longname_slot e t buffer ck) = map (\<lambda>m. buffer ! (26 * t + 2 * m)) [0 ..< 13]"
    and "length (longname_slot e t buffer ck) = 32"
proof -
  have l: "length (take 10 (drop (26 * t) buffer)) = 10"
    "length (take 12 (drop (26 * t + 10) buffer)) = 12"
    "length (take 4 (drop (26 * t + 22) buffer)) = 4" using assms by simp_all
  have u: "[0 ..< 13] = [0,1,2,3,4,5,6,7,8,9,10,11,12::nat]"
    by (simp add: upt_rec)
  have "ln_chars (longname_slot e t buffer ck) =
     [take 10 (drop (26 * t) buffer) ! 0, take 10 (drop (26 * t) buffer) ! 2,
      take 10 (drop (26 * t) buffer) ! 4, take 10 (drop (26 * t) buffer) ! 6,
      take 10 (drop (26 * t) buffer) ! 8,
      take 12 (drop (26 * t + 10) buffer) ! 0, take 12 (drop (26 * t + 10) buffer) ! 2,
      take 12 (drop (26 * t + 10) buffer) ! 4, take 12 (drop (26 * t + 10) buffer) ! 6,
      take 12 (drop (26 * t + 10) buffer) ! 8, take 12 (drop (26 * t + 10) buffer) ! 10,
      take 4 (drop (26 * t + 22) buffer) ! 0, take 4 (drop (26 * t + 22) buffer) ! 2]"
    unfolding longname_slot_def by (rule ln_write_chars[OF l assms(2)])
  also have "\<dots> = map (\<lambda>m. buffer ! (26 * t + 2 * m)) [0 ..< 13]"
    unfolding u using assms(1) by (simp add: add.commute add.left_commute)
  finally show "ln_chars (longname_slot e t buffer ck) = map (\<lambda>m. buffer ! (26 * t + 2 * m)) [0 ..< 13]" .
  show "length (longname_slot e t buffer ck) = 32"
    unfolding longname_slot_def by (rule ln_write_length[OF l assms(2)])
qed

lemma set_last_flag_fields:
  assumes "12 < length e"
  shows "ln_attrib (set_last_flag e) = ln_attrib e" "ln_checksum (set_last_flag e) = ln_checksum e"
    "ln_num (set_last_flag e) = ln_num e OR 0x40" "ln_chars (set_last_flag e) = ln_chars e"
    "length (set_last_flag e) = length e"
proof -
  from assms have "0 < length e" by (cases e) auto
  then show "ln_num (set_last_flag e) = ln_num e OR 0x40"
    by (simp add: ln_num_def set_last_flag_def)
qed (simp_all add: ln_attrib_def ln_checksum_def ln_chars_def set_last_flag_def)

lemma bit_64_u8: "bit (64::u8) n \<longleftrightarrow> n = 6"
  using bit_exp_iff[where ?'a = u8, of 6 n] by (auto dest: bit_imp_le_length)

lemma bit_64_int: "bit (64::int) n \<longleftrightarrow> n = 6"
  using bit_exp_iff[where ?'a = int, of 6 n] by simp

lemma bit_64_nat: "bit (64::nat) n \<longleftrightarrow> n = 6"
  using bit_exp_iff[where ?'a = nat, of 6 n] by simp

lemma seq_byte_flag: "((x::u8) OR 0x40) AND 0x40 \<noteq> 0"
proof
  assume "(x OR 0x40) AND 0x40 = 0"
  then have "bit ((x OR 0x40) AND (0x40::u8)) 6 = bit (0::u8) 6" by simp
  then show False by (simp add: bit_simps)
qed

lemma seq_byte_count:
  assumes "E \<le> 31"
  shows "unat (((of_nat E :: u8) OR 0x40) AND 0x1F) = E"
proof -
  have m: "(0x1F :: u8) = mask 5"
    by (simp add: mask_eq_exp_minus_1)
  have a: "((of_nat E :: u8) OR 0x40) AND 0x1F = of_nat E AND mask 5"
    unfolding m by (rule bit_eqI) (auto simp: bit_simps bit_64_u8 bit_64_int bit_64_nat)
  have "(of_nat E :: u8) AND mask 5 = of_nat (take_bit 5 E)"
    by (simp add: take_bit_eq_mask[symmetric] take_bit_of_nat)
  also have "take_bit 5 E = E" using assms by (simp add: take_bit_nat_eq_self_iff)
  finally have "((of_nat E :: u8) OR 0x40) AND 0x1F = of_nat E" using a by simp
  then show ?thesis using assms by (simp add: unat_of_nat)
qed

lemma rev_upt_map: "rev [0 ..< n] = map (\<lambda>t. n - 1 - t) [0 ..< n]"
  by (rule nth_equalityI) (auto simp: rev_nth)

lemma concat_blocks: "concat (map (\<lambda>t. map (\<lambda>m. c (13 * t + m)) [0 ..< 13]) [0 ..< n]) = map c [0 ..< 13 * n]"
proof (induction n)
  case 0
  then show ?case by simp
next
  case (Suc n)
  let ?F = "\<lambda>t. map (\<lambda>m. c (13 * t + m)) [0 ..< 13]"
  have eq: "[0 ..< 13 * Suc n] = [0 ..< 13 * n] @ map (\<lambda>m. 13 * n + m) [0 ..< 13]"
    by (rule nth_equalityI) (auto simp: nth_append)
  have "concat (map ?F [0 ..< Suc n]) = concat (map ?F [0 ..< n]) @ ?F n"
    by simp
  also have "\<dots> = map c [0 ..< 13 * n] @ ?F n"
    using Suc by simp
  also have "\<dots> = map c ([0 ..< 13 * n] @ map (\<lambda>m. 13 * n + m) [0 ..< 13])"
    by (simp add: comp_def)
  also have "\<dots> = map c [0 ..< 13 * Suc n]"
    by (simp only: eq)
  finally show ?case .
qed

lemma takeWhile_name:
  assumes "0 \<notin> set name" and "length name \<le> N"
  shows "takeWhile (\<lambda>c. c \<noteq> 0)
           (map (\<lambda>k. if k < length name then name ! k else if k = length name then 0 else (0xFF::u8)) [0 ..< N])
         = name"
proof -
  let ?c = "\<lambda>k. if k < length name then name ! k else if k = length name then 0 else (0xFF::u8)"
  have split: "[0 ..< N] = [0 ..< length name] @ [length name ..< N]"
    using assms(2) by (metis le_add_diff_inverse upt_add_eq_append zero_le)
  have a: "map ?c [0 ..< length name] = name"
    by (rule nth_equalityI) auto
  have all: "\<forall>x \<in> set name. x \<noteq> 0" using assms(1) by auto
  have "takeWhile (\<lambda>c. c \<noteq> 0) (name @ map ?c [length name ..< N]) = name"
  proof (cases "length name < N")
    case False
    then have "N \<le> length name" by simp
    with all show ?thesis by (simp add: takeWhile_eq_all_conv)
  next
    case True
    then have "map ?c [length name ..< N] = 0 # map ?c [Suc (length name) ..< N]"
      by (simp add: upt_conv_Cons)
    with all show ?thesis by (simp add: takeWhile_append2)
  qed
  then show ?thesis
    by (subst split) (simp only: map_append a)
qed

lemma longname_entries_ceil: "longname_entries name = (length name + 12) div 13"
  unfolding longname_entries_def by presburger

lemma longname_entries_bounds:
  "length name \<le> 13 * longname_entries name"
  unfolding longname_entries_def by presburger

lemma longname_entries_pos: "name \<noteq> [] \<Longrightarrow> 0 < longname_entries name"
  unfolding longname_entries_def by (cases "length name div 13 = 0") auto

text \<open>The fields of slot \<open>i\<close> of the block that \<open>fat_write_longname\<close> writes.\<close>

lemma fat_write_longname_fields:
  assumes le: "longname_entries name \<le> length ln" and ne: "name \<noteq> []"
    and i: "i < longname_entries name"
  shows "\<exists>ln'. fat_write_longname ln name = Some (ln', longname_entries name) \<and>
     length ln' = length ln \<and>
     ln_attrib (ln' ! i) = FAT_DIR_LONGNAME \<and>
     ln_checksum (ln' ! i) = fat_checksum (fat_make_shortname name) \<and>
     ln_num (ln' ! i) = (if i = 0 then of_nat (longname_entries name) OR 0x40
                         else of_nat (longname_entries name - i))"
proof -
  let ?E = "longname_entries name"
  define S where "S = longname_slot (ln ! i) (?E - 1 - i) (utf16_buffer name ?E)
              (fat_checksum (fat_make_shortname name))"
  from ne have pos: "0 < ?E" by (rule longname_entries_pos)
  from i le have il: "i < length ln" by simp
  have b: "26 * (?E - 1 - i) + 26 \<le> length (utf16_buffer name ?E)"
    using pos by simp
  have e2: "?E - 1 - i + 1 = ?E - i" using i by simp
  note f = longname_slot_fields[OF b, of "ln ! i" "fat_checksum (fat_make_shortname name)",
      folded S_def, unfolded e2]
  from fat_write_longname_nth[OF le pos il]
  obtain ln' where w: "fat_write_longname ln name = Some (ln', ?E)" "length ln' = length ln"
    and nth: "ln' ! i = (if i = 0 then set_last_flag else id) S"
    using i unfolding S_def by auto
  show ?thesis
  proof (cases "i = 0")
    case True
    with nth have "ln' ! i = set_last_flag S" by simp
    with w f True show ?thesis
      by (simp add: set_last_flag_fields[OF f(5)])
  next
    case False
    with nth have "ln' ! i = S" by simp
    with w f False show ?thesis
      by simp
  qed
qed

text \<open>
  Claim C5 (as amended). For a name of length \<open>L \<ge> 1\<close>, \<open>fat_write_longname\<close> writes
  \<open>E = ceil(L / 13)\<close> entries. The first slot has the sequence byte \<open>E | 0x40\<close> (of \<open>E\<close>
  the low eight bits, as the byte stores them), the last slot has the sequence byte 1
  when \<open>E \<ge> 2\<close>, and every slot of the block has attribute \<open>0x0F\<close> and the checksum of
  the short name that \<open>fat_make_shortname\<close> gives.
\<close>

theorem fat_write_longname_block:
  assumes "name \<noteq> []" and "longname_entries name \<le> length ln"
  shows "\<exists>ln'. fat_write_longname ln name = Some (ln', longname_entries name) \<and>
     longname_entries name = (length name + 12) div 13 \<and>
     ln_num (ln' ! 0) = of_nat (longname_entries name) OR 0x40 \<and>
     (2 \<le> longname_entries name \<longrightarrow> ln_num (ln' ! (longname_entries name - 1)) = 1) \<and>
     (\<forall>i < longname_entries name.
        ln_attrib (ln' ! i) = 0x0F \<and>
        ln_checksum (ln' ! i) = fat_checksum (fat_make_shortname name))"
proof -
  let ?E = "longname_entries name"
  from assms(1) have pos: "0 < ?E" by (rule longname_entries_pos)
  from fat_write_longname_fields[OF assms(2,1) pos]
  obtain ln' where w: "fat_write_longname ln name = Some (ln', ?E)"
    and n0: "ln_num (ln' ! 0) = of_nat ?E OR 0x40" by auto
  have each: "ln_attrib (ln' ! i) = 0x0F \<and>
        ln_checksum (ln' ! i) = fat_checksum (fat_make_shortname name) \<and>
        ln_num (ln' ! i) = (if i = 0 then of_nat ?E OR 0x40 else of_nat (?E - i))"
    if "i < ?E" for i
    using fat_write_longname_fields[OF assms(2,1) that] w
    by (auto simp: FAT_DIR_LONGNAME_def)
  have last: "ln_num (ln' ! (?E - 1)) = 1" if "2 \<le> ?E"
  proof -
    from that have "?E - 1 < ?E" "?E - 1 \<noteq> 0" "?E - (?E - 1) = 1" by simp_all
    with each[of "?E - 1"] show ?thesis by simp
  qed
  from w n0 last each show ?thesis
    by (auto simp: longname_entries_ceil)
qed

lemma fat_write_longname_chars:
  assumes le: "longname_entries name \<le> length ln" and ne: "name \<noteq> []"
    and i: "i < longname_entries name" and len: "length (ln ! i) = 32"
  shows "\<exists>ln'. fat_write_longname ln name = Some (ln', longname_entries name) \<and>
     ln_chars (ln' ! i) =
       map (\<lambda>m. utf16_buffer name (longname_entries name) ! (26 * (longname_entries name - 1 - i) + 2 * m))
         [0 ..< 13]"
proof -
  let ?E = "longname_entries name"
  define S where "S = longname_slot (ln ! i) (?E - 1 - i) (utf16_buffer name ?E)
              (fat_checksum (fat_make_shortname name))"
  from ne have pos: "0 < ?E" by (rule longname_entries_pos)
  from i le have il: "i < length ln" by simp
  have b: "26 * (?E - 1 - i) + 26 \<le> length (utf16_buffer name ?E)"
    using pos by simp
  note f = longname_slot_fields[OF b, of "ln ! i" "fat_checksum (fat_make_shortname name)",
      folded S_def]
  note c = longname_slot_chars[OF b len, of "fat_checksum (fat_make_shortname name)",
      folded S_def]
  from fat_write_longname_nth[OF le pos il]
  obtain ln' where w: "fat_write_longname ln name = Some (ln', ?E)"
    and nth: "ln' ! i = (if i = 0 then set_last_flag else id) S"
    using i unfolding S_def by auto
  have "ln_chars (ln' ! i) = ln_chars S"
    using nth by (cases "i = 0") (simp_all add: set_last_flag_fields[OF f(5)])
  with w c(1) show ?thesis by simp
qed

text \<open>
  Claim C6 (as amended). For a non-empty name without a zero byte that needs at most 31
  entries, \<open>fat_read_longname\<close> applied to the block that \<open>fat_write_longname\<close> wrote
  gives the name back.
\<close>

theorem longname_roundtrip:
  assumes ne: "name \<noteq> []" and nz: "0 \<notin> set name"
    and small: "longname_entries name \<le> 31"
    and le: "longname_entries name \<le> length ln"
    and slots: "\<forall>e \<in> set ln. length e = 32"
  shows "\<exists>ln'. fat_write_longname ln name = Some (ln', longname_entries name) \<and>
           fat_read_longname ln' = Some (Some name)"
proof -
  let ?E = "longname_entries name"
  let ?buf = "utf16_buffer name ?E"
  let ?c = "\<lambda>k. if k < length name then name ! k else if k = length name then 0 else (0xFF::u8)"
  from ne have pos: "0 < ?E" by (rule longname_entries_pos)
  from fat_write_longname_fields[OF le ne pos]
  obtain ln' where w: "fat_write_longname ln name = Some (ln', ?E)"
    and l: "length ln' = length ln"
    and a0: "ln_attrib (ln' ! 0) = FAT_DIR_LONGNAME"
    and n0: "ln_num (ln' ! 0) = of_nat ?E OR 0x40" by auto
  have ch: "ln_chars (ln' ! i) = map (\<lambda>m. ?buf ! (26 * (?E - 1 - i) + 2 * m)) [0 ..< 13]"
    if "i < ?E" for i
  proof -
    from that le have "ln ! i \<in> set ln" by simp
    with slots have "length (ln ! i) = 32" by blast
    from fat_write_longname_chars[OF le ne that this] w show ?thesis by simp
  qed
  have cnt: "unat (ln_num (ln' ! 0) AND 0x1F) = ?E"
    unfolding n0 using small by (rule seq_byte_count)
  have flag: "ln_num (ln' ! 0) AND 0x40 \<noteq> 0"
    unfolding n0 by (rule seq_byte_flag)
  from pos le l have nonempty: "ln' \<noteq> []" by auto
  have rd: "fat_read_longname ln' = Some (Some (takeWhile (\<lambda>c. c \<noteq> 0)
               (concat (map (\<lambda>j. ln_chars (ln' ! j)) (rev [0 ..< ?E])))))"
    using nonempty a0 flag cnt le l by (simp add: fat_read_longname_def Let_def)
  have "map (\<lambda>j. ln_chars (ln' ! j)) (rev [0 ..< ?E])
      = map (\<lambda>t. ln_chars (ln' ! (?E - 1 - t))) [0 ..< ?E]"
    by (simp add: rev_upt_map comp_def)
  also have "\<dots> = map (\<lambda>t. map (\<lambda>m. (\<lambda>k. ?buf ! (2 * k)) (13 * t + m)) [0 ..< 13]) [0 ..< ?E]"
  proof (rule map_cong[OF refl])
    fix t assume "t \<in> set [0 ..< ?E]"
    then have t: "t < ?E" by simp
    then have "?E - 1 - t < ?E" and "?E - 1 - (?E - 1 - t) = t" by simp_all
    with ch[of "?E - 1 - t"]
    have "ln_chars (ln' ! (?E - 1 - t)) = map (\<lambda>m. ?buf ! (26 * t + 2 * m)) [0 ..< 13]"
      by simp
    also have "\<dots> = map (\<lambda>m. ?buf ! (2 * (13 * t + m))) [0 ..< 13]"
      by (rule map_cong[OF refl]) (simp add: algebra_simps)
    finally show "ln_chars (ln' ! (?E - 1 - t)) = map (\<lambda>m. (\<lambda>k. ?buf ! (2 * k)) (13 * t + m)) [0 ..< 13]" .
  qed
  finally have m: "map (\<lambda>j. ln_chars (ln' ! j)) (rev [0 ..< ?E])
      = map (\<lambda>t. map (\<lambda>m. ?buf ! (2 * (13 * t + m))) [0 ..< 13]) [0 ..< ?E]" .
  have "concat (map (\<lambda>j. ln_chars (ln' ! j)) (rev [0 ..< ?E]))
      = map (\<lambda>k. ?buf ! (2 * k)) [0 ..< 13 * ?E]"
    unfolding m by (rule concat_blocks[of "\<lambda>k. ?buf ! (2 * k)" ?E])
  also have "\<dots> = map ?c [0 ..< 13 * ?E]"
    by (rule map_cong[OF refl]) (simp add: utf16_buffer_even)
  finally have "takeWhile (\<lambda>c. c \<noteq> 0) (concat (map (\<lambda>j. ln_chars (ln' ! j)) (rev [0 ..< ?E]))) = name"
    using takeWhile_name[OF nz longname_entries_bounds[of name]] by simp
  with rd w show ?thesis by simp
qed

lemma hello_entries: "longname_entries hello_name = 2"
  by (simp add: longname_entries_def hello_name_def)

lemma hello_checksum: "fat_checksum (fat_make_shortname hello_name) = 98"
  by (simp add: fat_checksum_def fat_make_shortname_def hello_name_def pad_spaces_def
        after_last_dot_def)

theorem fat_write_longname_block_witness:
  "hello_name \<noteq> [] \<and> longname_entries hello_name \<le> length (blank_slots 3) \<and>
   (\<exists>ln'. fat_write_longname (blank_slots 3) hello_name = Some (ln', 2) \<and>
      ln_num (ln' ! 0) = 0x42 \<and> ln_num (ln' ! 1) = 1 \<and>
      ln_attrib (ln' ! 0) = 0x0F \<and> ln_attrib (ln' ! 1) = 0x0F \<and>
      ln_checksum (ln' ! 0) = 98 \<and> ln_checksum (ln' ! 1) = 98)"
proof -
  have a: "hello_name \<noteq> []" by (simp add: hello_name_def)
  have b: "longname_entries hello_name \<le> length (blank_slots 3)"
    by (simp add: hello_entries blank_slots_def)
  from fat_write_longname_block [OF a b, unfolded hello_entries hello_checksum]
  obtain ln' where w: "fat_write_longname (blank_slots 3) hello_name = Some (ln', 2)"
    and n: "ln_num (ln' ! 0) = of_nat 2 OR 0x40" "ln_num (ln' ! (2 - 1)) = 1"
    and e: "\<forall>i<2. ln_attrib (ln' ! i) = 0x0F \<and> ln_checksum (ln' ! i) = 98"
    by auto
  from e have "ln_attrib (ln' ! 0) = 0x0F" "ln_checksum (ln' ! 0) = 98"
    "ln_attrib (ln' ! 1) = 0x0F" "ln_checksum (ln' ! 1) = 98" by simp_all
  with a b w n show ?thesis by simp
qed

theorem fat_write_longname_block_counterexample:
  "(\<exists>ln'. fat_write_longname (blank_slots 1) [0x41] = Some (ln', 1) \<and>
      ln_num (ln' ! (1 - 1)) = 0x41 \<and> ln_num (ln' ! (1 - 1)) \<noteq> 1) \<and>
   (\<exists>ln'. fat_write_longname (blank_slots 256) (replicate 3316 0x41) = Some (ln', 256) \<and>
      ln_num (ln' ! 0) = 0x40 \<and> (256::nat) OR 0x40 = 320)"
proof -
  have e1: "longname_entries [0x41] = 1" by (simp add: longname_entries_def)
  have e2: "longname_entries (replicate 3316 0x41) = 256" by (simp add: longname_entries_def)
  have "\<exists>ln'. fat_write_longname (blank_slots 1) [0x41] = Some (ln', 1) \<and>
      ln_num (ln' ! (1 - 1)) = 0x41 \<and> ln_num (ln' ! (1 - 1)) \<noteq> 1"
    using fat_write_longname_fields [of "[0x41]" "blank_slots 1" 0]
    by (auto simp: e1 blank_slots_def)
  moreover have "\<exists>ln'. fat_write_longname (blank_slots 256) (replicate 3316 0x41) = Some (ln', 256) \<and>
      ln_num (ln' ! 0) = 0x40 \<and> (256::nat) OR 0x40 = 320"
    using fat_write_longname_fields [of "replicate 3316 0x41" "blank_slots 256" 0]
    by (auto simp: e2 blank_slots_def)
  ultimately show ?thesis by blast
qed

theorem longname_roundtrip_witness:
  "hello_name \<noteq> [] \<and> 0 \<notin> set hello_name \<and> longname_entries hello_name \<le> 31 \<and>
   longname_entries hello_name \<le> length (blank_slots 3) \<and>
   (\<exists>ln'. fat_write_longname (blank_slots 3) hello_name = Some (ln', 2) \<and>
      fat_read_longname ln' = Some (Some hello_name))"
proof -
  have a: "hello_name \<noteq> []" "0 \<notin> set hello_name" by (simp_all add: hello_name_def)
  have b: "longname_entries hello_name \<le> 31" "longname_entries hello_name \<le> length (blank_slots 3)"
    by (simp_all add: hello_entries blank_slots_def)
  have c: "\<forall>e \<in> set (blank_slots 3). length e = 32" by (simp add: blank_slots_def)
  from longname_roundtrip [OF a b c] a b show ?thesis by (simp add: hello_entries)
qed

theorem longname_roundtrip_counterexample:
  "\<exists>ln'. fat_write_longname (blank_slots 32) (replicate 404 0x41) = Some (ln', 32) \<and>
      fat_read_longname ln' = Some (Some []) \<and> replicate 404 (0x41::u8) \<noteq> []"
proof -
  have e: "longname_entries (replicate 404 0x41) = 32" by (simp add: longname_entries_def)
  from fat_write_longname_fields [of "replicate 404 0x41" "blank_slots 32" 0]
  obtain ln' where w: "fat_write_longname (blank_slots 32) (replicate 404 0x41) = Some (ln', 32)"
    and l: "length ln' = 32"
    and f: "ln_attrib (ln' ! 0) = FAT_DIR_LONGNAME" "ln_num (ln' ! 0) = 0x60"
    by (auto simp: e blank_slots_def)
  from l have "ln' \<noteq> []" by auto
  with f have "fat_read_longname ln' = Some (Some [])"
    by (simp add: fat_read_longname_def)
  with w show ?thesis by simp
qed

section \<open>Proofs: directory entries\<close>

text \<open>
  Claim C1. \<open>fat_link\<close> stores \<open>cluster & 0xFF\<close> in \<open>cluster_low\<close>: for the first cluster
  256 both cluster fields of the entry are 0, and the first cluster that \<open>fat_readdir\<close>
  computes from them is 0.
\<close>

theorem link_cluster_low_loses_bits:
  "cluster inode_256 = 0x100 \<and>
   de_cluster_high (link_fill_entry gmtime_zero inode_256 (replicate 32 0)) = 0 \<and>
   de_cluster_low (link_fill_entry gmtime_zero inode_256 (replicate 32 0)) = 0 \<and>
   entry_first_cluster (link_fill_entry gmtime_zero inode_256 (replicate 32 0)) = 0 \<and>
   de_size (link_fill_entry gmtime_zero inode_256 (replicate 32 0)) = 5000"
  by (simp add: link_fill_entry_def inode_256_def gmtime_zero_def entry_first_cluster_def
        de_cluster_high_def de_cluster_low_def de_size_def put16_def put32_def get16_def
        get32_def fat_time_def fat_date_def Let_def)

lemma fat_readdir_null_state:
  assumes "fat_readdir mk fs d n = Some (None, fs')"
  shows "fs' = fs"
  using assms
  by (auto simp: fat_readdir_def Let_def split: option.splits if_splits prod.splits)

lemma fat_readdir_dots_state:
  assumes "fat_readdir mk fs d n = Some (r, fs')" and "n < 2"
  shows "fs' = fs"
proof -
  from assms(2) have "n = 0 \<or> n = 1" by unat_arith
  with assms(1) show ?thesis
    by (auto simp: fat_readdir_def Let_def split: option.splits if_splits)
qed

lemma fat_readdir_found_dir:
  assumes "fat_readdir mk fs d n = Some (Some de, fs')"
  shows "d \<noteq> 0"
  using assms by (auto simp: fat_readdir_def)

lemma fat_unlink_dots:
  assumes "n < 2"
  shows "fat_unlink mk fs d n = Some (1, fs)"
  using assms by (simp add: fat_unlink_def)

text \<open>
  Claim C10. When \<open>fat_readdir(dir, num)\<close> finds an entry and \<open>fat_readdir\<close> of that
  entry's handle at index 2 returns a null pointer, \<open>fat_rmdir\<close> returns 0 whatever status
  \<open>fat_unlink\<close> returns; for \<open>num\<close> 0 or 1 \<open>fat_unlink\<close> returns 1 and the volume is left as
  it was.
\<close>

theorem rmdir_discards_unlink_status:
  assumes a: "fat_readdir mk fs dir num = Some (Some de, fs1)"
    and b: "fat_readdir mk fs1 (d_ino de) 2 = Some (None, fs2)"
  shows "(\<forall>status fs3. fat_unlink mk fs2 dir num = Some (status, fs3) \<longrightarrow>
            fat_rmdir mk fs dir num = Some (0, fs3)) \<and>
         (num < 2 \<longrightarrow> fat_unlink mk fs2 dir num = Some (1, fs) \<and>
            fat_rmdir mk fs dir num = Some (0, fs))"
proof -
  from a have d: "dir \<noteq> 0" by (rule fat_readdir_found_dir)
  have gen: "fat_rmdir mk fs dir num = Some (0, fs3)"
    if "fat_unlink mk fs2 dir num = Some (status, fs3)" for status fs3
    using that a b d by (simp add: fat_rmdir_def)
  have dots: "fat_unlink mk fs2 dir num = Some (1, fs) \<and> fat_rmdir mk fs dir num = Some (0, fs)"
    if lt: "num < 2"
  proof -
    from b have "fs2 = fs1" by (rule fat_readdir_null_state)
    moreover from a lt have "fs1 = fs" by (rule fat_readdir_dots_state)
    ultimately have u: "fat_unlink mk fs2 dir num = Some (1, fs)"
      using fat_unlink_dots[OF lt, of mk fs2 dir] by simp
    from gen[OF u] u show ?thesis by simp
  qed
  from gen dots show ?thesis by blast
qed

lemma small_root: "fat_get_inode small_fs 1 = Some (Some \<lparr>parent = 1, type = 0x10, cluster = 0, size_bytes = 0,
                 atime = 0, ctime = 0, mtime = 0\<rparr>)"
  by (simp add: fat_get_inode_def small_fs_def example_fs_def)

lemma small_cc: "fat_clustercount small_fs 1 = Some 1"
  by (simp add: fat_clustercount_def small_fs_def example_fs_def)

lemma small_clusters: "fat_get_clusters small_fs 1 = Some [0, 0]"
  by (simp add: fat_get_clusters_def small_cc)

lemma small_geom: "fat_clustersize small_fs = 512" "sectors_per_cluster small_fs = 1"
  "part small_fs = (\<lambda>_. [])" "fat_first_data_sector small_fs = 20"
  by (simp_all add: small_fs_def example_fs_def)

lemma small_read_root: "fat_read small_fs 1 512 0 = Some (512, replicate 512 0)"
  by (simp add: fat_read_def small_root small_clusters file_size_def small_cc small_geom
        clamp_length_def span_clusters_def Let_def fat_readclusters_def cluster_sector_def
        partition_readblocks_def sector_def blit_def)

lemma small_readdir_2: "fat_readdir mk small_fs 1 2 = Some (None, small_fs)"
  by (simp add: fat_readdir_def small_root small_cc small_geom small_read_root blit_def
        FAT_DIR_DIRECTORY_def readdir_scan.simps Let_def)

lemma small_readdir_0: "fat_readdir mk small_fs 1 0 = Some (Some \<lparr>d_name = [0x2E], d_ino = 1\<rparr>, small_fs)"
  by (simp add: fat_readdir_def small_root FAT_DIR_DIRECTORY_def)

theorem rmdir_discards_unlink_status_witness:
  "fat_readdir mktime_zero small_fs 1 0 = Some (Some \<lparr>d_name = [0x2E], d_ino = 1\<rparr>, small_fs) \<and>
   fat_readdir mktime_zero small_fs 1 2 = Some (None, small_fs) \<and>
   fat_unlink mktime_zero small_fs 1 0 = Some (1, small_fs) \<and>
   fat_rmdir mktime_zero small_fs 1 0 = Some (0, small_fs)"
proof -
  have a: "fat_readdir mktime_zero small_fs 1 0 = Some (Some \<lparr>d_name = [0x2E], d_ino = 1\<rparr>, small_fs)"
    by (rule small_readdir_0)
  have b: "fat_readdir mktime_zero small_fs (d_ino \<lparr>d_name = [0x2E], d_ino = 1\<rparr>) 2 = Some (None, small_fs)"
    by (simp add: small_readdir_2)
  from rmdir_discards_unlink_status [OF a b] a b show ?thesis by simp
qed

section \<open>Proofs: reading and writing past the end of a file\<close>

lemma small_size: "file_size small_fs 1 \<lparr>parent = 1, type = 0x10, cluster = 0, size_bytes = 0,
                 atime = 0, ctime = 0, mtime = 0\<rparr> = Some 512"
  by (simp add: file_size_def small_cc small_geom)

lemma clamp_wraps: "clamp_length 512 1 513 = 0xFFFFFFFFFFFFFFFF"
  by (simp add: clamp_length_def)

lemma clamp_at_end: "clamp_length 512 1 512 = 0"
  by (simp add: clamp_length_def)

text \<open>
  Claim C7. The root directory of \<open>small_fs\<close> (handle 1) has the stored size 0 and one
  cluster of 512 bytes, so \<open>fat_read\<close> works with the size 512. A read of one byte at offset
  512 returns 0 bytes. At offset 513 the clamp \<open>length = size - offset\<close> is computed in
  \<open>size_t\<close> and gives \<open>2^64 - 1\<close>, not a length inside the file; \<open>fat_read\<close> then stages 0
  clusters and runs \<open>memcpy\<close> with that length from the empty staging buffer, which is the
  result \<open>None\<close>.
\<close>

theorem read_past_end_wraps:
  "fat_get_inode small_fs 1 = Some (Some \<lparr>parent = 1, type = 0x10, cluster = 0, size_bytes = 0,
                 atime = 0, ctime = 0, mtime = 0\<rparr>) \<and>
   fat_clustercount small_fs 1 = Some 1 \<and> fat_clustersize small_fs = 512 \<and>
   fat_read small_fs 1 1 512 = Some (0, []) \<and>
   clamp_length 512 1 513 = 0xFFFFFFFFFFFFFFFF \<and>
   fat_read small_fs 1 1 513 = None"
  by (simp add: fat_read_def small_root small_clusters small_size small_cc small_geom
        clamp_wraps clamp_at_end span_clusters_def Let_def blit_def)

text \<open>
  \<open>fat_write\<close> changes the partition only: when it returns, the FAT and the inode
  records, with the first cluster and the size of every file, are as before.
\<close>

lemma stage_write_frame:
  "stage_write fs cl is b buff = Some fs' \<Longrightarrow> fat fs' = fat fs \<and> inodes fs' = inodes fs"
proof (induction "is" arbitrary: fs b)
  case Nil
  then show ?case by simp
next
  case (Cons i "is")
  then show ?case
    by (auto simp: fat_writeclusters_def Let_def split: if_splits option.splits)
qed

lemma fat_write_frame:
  assumes "fat_write fs ino buffer len offset = Some (r, fs')"
  shows "fat fs' = fat fs \<and> inodes fs' = inodes fs"
  using assms
  by (auto simp: fat_write_def Let_def dest!: stage_write_frame
        split: if_splits option.splits prod.splits)

text \<open>
  Claim C8. On the same volume a write of one byte to the root directory at offset 512, the
  size, writes 0 bytes and leaves the volume as it was. At offset 513 the clamp
  \<open>length = size - offset\<close> gives \<open>2^64 - 1\<close>, not a length clamped to the size; \<open>fat_write\<close>
  then runs \<open>memcpy\<close> with that length from the caller's buffer of one byte into a staging
  buffer of 0 bytes, which is the result \<open>None\<close>.
\<close>

theorem write_past_end_wraps:
  "fat_get_inode small_fs 1 = Some (Some \<lparr>parent = 1, type = 0x10, cluster = 0, size_bytes = 0,
                 atime = 0, ctime = 0, mtime = 0\<rparr>) \<and>
   fat_clustercount small_fs 1 = Some 1 \<and> fat_clustersize small_fs = 512 \<and>
   fat_write small_fs 1 [0x41] 1 512 = Some (0, small_fs) \<and>
   clamp_length 512 1 513 = 0xFFFFFFFFFFFFFFFF \<and>
   fat_write small_fs 1 [0x41] 1 513 = None"
  by (simp add: fat_write_def fat_read_def small_root small_clusters small_size small_cc small_geom
        clamp_wraps clamp_at_end span_clusters_def Let_def blit_def)

end
